theory Spec2Isabelle
  imports Complex_Main "HOL-Library.Sublist" "HOL-Library.Multiset"
begin

section \<open>JavaScript values used by the geocoder and the event processor\<close>

text \<open>
  Numbers are modelled by the reals (with a separate \<open>NaN\<close>), time values by the
  integers (milliseconds since the epoch), strings by lists of ASCII characters.
  A \<open>Date\<close> is a time value or the Invalid Date \<open>None\<close>; a \<open>Date\<close> built from a number
  beyond the range of time values is invalid (\<open>newDate\<close> below), and the dates that the
  environment supplies (the parser and the wall clock) are taken as they come.
  IEEE rounding and non-ASCII white space are outside the model.
\<close>

datatype jsnum = Num real | NaN

datatype error =
    UnrecognizedClock string
  | UnknownRing string
  | InvalidLocation string
  | AmbiguousLocation string
  | DataError string

definition bind_err :: "error + 'a \<Rightarrow> ('a \<Rightarrow> error + 'b) \<Rightarrow> error + 'b" where
  "bind_err r f = (case r of Inl e \<Rightarrow> Inl e | Inr v \<Rightarrow> f v)"

definition try_catch :: "error + 'a \<Rightarrow> (error \<Rightarrow> error + 'a) \<Rightarrow> error + 'a" where
  "try_catch r handler = (case r of Inl e \<Rightarrow> handler e | Inr v \<Rightarrow> Inr v)"

definition orDefault :: "'a \<Rightarrow> 'a option \<Rightarrow> 'a" where
  "orDefault d x = (case x of None \<Rightarrow> d | Some v \<Rightarrow> v)"

subsection \<open>Strings\<close>

definition isSpace :: "char \<Rightarrow> bool" where
  "isSpace c = (c \<in> set [CHR '' '', CHR 0x09, CHR 0x0A, CHR 0x0B, CHR 0x0C, CHR 0x0D])"

definition isDigit :: "char \<Rightarrow> bool" where
  "isDigit c = (c \<in> set ''0123456789'')"

definition digitVal :: "char \<Rightarrow> nat" where
  "digitVal c = length (takeWhile (\<lambda>d. d \<noteq> c) ''0123456789'')"

definition parseDigits :: "string \<Rightarrow> nat" where
  "parseDigits s = foldl (\<lambda>acc c. 10 * acc + digitVal c) 0 s"

definition toUpperChar :: "char \<Rightarrow> char" where
  "toUpperChar c =
     (case map_of (zip ''abcdefghijklmnopqrstuvwxyz'' ''ABCDEFGHIJKLMNOPQRSTUVWXYZ'') c of
        Some u \<Rightarrow> u | None \<Rightarrow> c)"

definition toUpperCase :: "string \<Rightarrow> string" where
  "toUpperCase s = map toUpperChar s"

definition trim :: "string \<Rightarrow> string" where
  "trim s = rev (dropWhile isSpace (rev (dropWhile isSpace s)))"

text \<open>\<^verbatim>\<open>s.replace(/\s+/g, "")\<close>\<close>

definition removeSpaces :: "string \<Rightarrow> string" where
  "removeSpaces s = filter (\<lambda>c. \<not> isSpace c) s"

text \<open>\<^verbatim>\<open>s.includes(sub)\<close>\<close>

fun str_includes :: "string \<Rightarrow> string \<Rightarrow> bool" where
  "str_includes sub [] = (sub = [])"
| "str_includes sub (x # xs) = (prefix sub (x # xs) \<or> str_includes sub xs)"

text \<open>\<^verbatim>\<open>s.indexOf(sub)\<close>, counting from position \<open>i\<close>; \<open>-1\<close> when absent.\<close>

fun indexOf_from :: "string \<Rightarrow> string \<Rightarrow> nat \<Rightarrow> int" where
  "indexOf_from sub [] i = (if sub = [] then int i else - 1)"
| "indexOf_from sub (x # xs) i =
     (if prefix sub (x # xs) then int i else indexOf_from sub xs (Suc i))"

definition indexOf :: "string \<Rightarrow> string \<Rightarrow> int" where
  "indexOf s sub = indexOf_from sub s 0"

text \<open>\<^verbatim>\<open>s.split(d)\<close> for a one-character separator.\<close>

fun js_split :: "char \<Rightarrow> string \<Rightarrow> string list" where
  "js_split d [] = [[]]"
| "js_split d (x # xs) =
     (if x = d then [] # js_split d xs
      else (case js_split d xs of p # ps \<Rightarrow> (x # p) # ps | [] \<Rightarrow> [[x]]))"

text \<open>\<^verbatim>\<open>parseInt(s, 10)\<close>: \<open>None\<close> is NaN.\<close>

definition parseInt :: "string \<Rightarrow> int option" where
  "parseInt s =
     (let t = dropWhile isSpace s;
          neg = (t \<noteq> [] \<and> hd t = CHR ''-'');
          u = (if t \<noteq> [] \<and> (hd t = CHR ''-'' \<or> hd t = CHR ''+'') then tl t else t);
          ds = takeWhile isDigit u
      in if ds = [] then None
         else Some ((if neg then - 1 else 1) * int (parseDigits ds)))"

text \<open>\<^verbatim>\<open>/^\d{1,4}$/\<close>\<close>

definition digits_1_4 :: "string \<Rightarrow> bool" where
  "digits_1_4 s = (1 \<le> length s \<and> length s \<le> 4 \<and> list_all isDigit s)"

text \<open>The tail \<^verbatim>\<open>(\.\d+)?$\<close> of the two decimal patterns.\<close>

definition opt_fraction :: "string \<Rightarrow> bool" where
  "opt_fraction r = (r = [] \<or> (hd r = CHR ''.'' \<and> tl r \<noteq> [] \<and> list_all isDigit (tl r)))"

text \<open>\<^verbatim>\<open>/^\d+(\.\d+)?$/\<close>\<close>

definition decimal_re :: "string \<Rightarrow> bool" where
  "decimal_re s = (takeWhile isDigit s \<noteq> [] \<and> opt_fraction (dropWhile isDigit s))"

text \<open>\<^verbatim>\<open>/^\d{1,4}(\.\d+)?$/\<close>\<close>

definition clockish_re :: "string \<Rightarrow> bool" where
  "clockish_re s =
     (1 \<le> length (takeWhile isDigit s) \<and> length (takeWhile isDigit s) \<le> 4 \<and>
      opt_fraction (dropWhile isDigit s))"

text \<open>\<^verbatim>\<open>parseFloat\<close> on a string matching \<open>decimal_re\<close>.\<close>

definition parseFloat :: "string \<Rightarrow> real" where
  "parseFloat s =
     (let ip = takeWhile isDigit s; fp = drop 1 (dropWhile isDigit s)
      in real (parseDigits ip) + real (parseDigits fp) / 10 ^ length fp)"

text \<open>The remainder operator \<^verbatim>\<open>%\<close>: the quotient is truncated towards zero.\<close>

definition js_mod :: "real \<Rightarrow> real \<Rightarrow> real" where
  "js_mod x y = x - y * of_int (if 0 \<le> x / y then \<lfloor>x / y\<rfloor> else \<lceil>x / y\<rceil>)"

definition Math_round :: "real \<Rightarrow> int" where
  "Math_round x = \<lfloor>x + 1 / 2\<rfloor>"

definition Math_atan2 :: "real \<Rightarrow> real \<Rightarrow> real" where
  "Math_atan2 y x =
     (if 0 < x then arctan (y / x)
      else if x < 0 then (if 0 \<le> y then arctan (y / x) + pi else arctan (y / x) - pi)
      else if 0 < y then pi / 2
      else if y < 0 then - (pi / 2)
      else 0)"

section \<open>brcGeo.ts\<close>

record Coordinates =
  lat :: jsnum
  lon :: jsnum

definition MAN_lat :: real where "MAN_lat = 40.786958"
definition MAN_lon :: real where "MAN_lon = - 119.202994"
definition ESPL_RADIUS_FT :: real where "ESPL_RADIUS_FT = 2500"
definition WIDTH_Esplanade :: real where "WIDTH_Esplanade = 40"

definition WIDTH :: "char \<Rightarrow> real" where
  "WIDTH L = orDefault 0 (map_of
     [(CHR ''A'', 30), (CHR ''B'', 30), (CHR ''C'', 30), (CHR ''D'', 30), (CHR ''E'', 40),
      (CHR ''F'', 30), (CHR ''G'', 30), (CHR ''H'', 30), (CHR ''I'', 30), (CHR ''J'', 30),
      (CHR ''K'', 50)] L)"

definition BLOCK :: "char \<Rightarrow> real" where
  "BLOCK L = orDefault 0 (map_of
     [(CHR ''A'', 400), (CHR ''B'', 250), (CHR ''C'', 250), (CHR ''D'', 250), (CHR ''E'', 250),
      (CHR ''F'', 450), (CHR ''G'', 250), (CHR ''H'', 250), (CHR ''I'', 250), (CHR ''J'', 150),
      (CHR ''K'', 150)] L)"

definition FT2M :: real where "FT2M = 0.3048"
definition R_earth :: real where "R_earth = 6371000"
definition CITY_ROTATION_DEG :: real where "CITY_ROTATION_DEG = 45"

text \<open>The common tail of \<open>bearingFromClock\<close>, from the line \<^verbatim>\<open>if (h === 12) h = 0\<close> on.\<close>

definition clockBearing :: "int option \<Rightarrow> real \<Rightarrow> jsnum" where
  "clockBearing h m =
     (case h of
        None \<Rightarrow> NaN
      | Some hv \<Rightarrow>
          (let h' = (if hv = 12 then 0 else hv);
               clockDeg = (real_of_int h' + m / 60) * 30
           in Num (js_mod (clockDeg + CITY_ROTATION_DEG) 360)))"

definition bearingFromClock :: "string \<Rightarrow> error + jsnum" where
  "bearingFromClock clockStr =
     (let s = removeSpaces (toUpperCase (trim clockStr))
      in if CHR '':'' \<in> set s then
           (let parts = js_split CHR '':'' s;
                hh = hd parts;
                mm = (if length parts < 2 then ''0'' else parts ! 1)
            in Inr (clockBearing (parseInt hh) (real_of_int (orDefault 0 (parseInt mm)))))
         else if digits_1_4 s then
           (if length s \<le> 2 then Inr (clockBearing (Some (int (parseDigits s))) 0)
            else Inr (clockBearing (Some (int (parseDigits (take (length s - 2) s))))
                        (real (parseDigits (drop (length s - 2) s)))))
         else if decimal_re s then
           (let f = parseFloat s; h = \<lfloor>f\<rfloor>; m = Math_round ((f - real_of_int h) * 60)
            in Inr (clockBearing (Some h) (real_of_int m)))
         else Inl (UnrecognizedClock clockStr))"

definition ring_order :: string where
  "ring_order = ''ABCDEFGHIJK''"

definition radiusFeetForRing :: "string \<Rightarrow> error + real" where
  "radiusFeetForRing name =
     (let n = toUpperCase (trim name)
      in if n = ''ESPLANADE'' \<or> n = ''ESPL'' then Inr ESPL_RADIUS_FT
         else (let idx = indexOf ring_order n
               in if idx < 0 then Inl (UnknownRing name)
                  else Inr (foldl
                     (\<lambda>r i. r + BLOCK (ring_order ! i) +
                        (if i = nat idx then WIDTH (ring_order ! i) / 2 else WIDTH (ring_order ! i)))
                     (ESPL_RADIUS_FT + WIDTH_Esplanade / 2) [0..<Suc (nat idx)])))"

definition destPoint :: "real \<Rightarrow> real \<Rightarrow> real \<Rightarrow> jsnum \<Rightarrow> Coordinates" where
  "destPoint lat0 lon0 distanceM bearingDeg =
     (case bearingDeg of
        NaN \<Rightarrow> \<lparr>lat = NaN, lon = NaN\<rparr>
      | Num bd \<Rightarrow>
          (let br = bd * pi / 180;
               phi1 = lat0 * pi / 180;
               lam1 = lon0 * pi / 180;
               delta = distanceM / R_earth;
               sinphi2 = sin phi1 * cos delta + cos phi1 * sin delta * cos br;
               phi2 = arcsin sinphi2;
               lam2 = lam1 + Math_atan2 (sin br * sin delta * cos phi1)
                                        (cos delta - sin phi1 * sinphi2)
           in \<lparr>lat = Num (phi2 * 180 / pi),
               lon = Num (js_mod (lam2 * 180 / pi + 540) 360 - 180)\<rparr>))"

definition haversineMeters :: "real \<Rightarrow> real \<Rightarrow> real \<Rightarrow> real \<Rightarrow> real" where
  "haversineMeters lat1 lon1 lat2 lon2 =
     (let toRad = (\<lambda>x. x * pi / 180);
          dphi = toRad (lat2 - lat1);
          dlam = toRad (lon2 - lon1);
          phi1 = toRad lat1;
          phi2 = toRad lat2;
          aa = (sin (dphi / 2))\<^sup>2 + cos phi1 * cos phi2 * (sin (dlam / 2))\<^sup>2
      in 2 * R_earth * arcsin (sqrt aa))"

text \<open>\<^verbatim>\<open>\s+\<close> followed by a literal that starts with a visible character.\<close>

definition wsThen :: "string \<Rightarrow> string \<Rightarrow> bool" where
  "wsThen lit s = (s \<noteq> [] \<and> isSpace (hd s) \<and> prefix lit (dropWhile isSpace s))"

text \<open>\<^verbatim>\<open>plazaPart.match(/([A-K])\s+Plaza/i)\<close>: the captured letter of the leftmost match.\<close>

fun plazaRingMatch :: "string \<Rightarrow> char option" where
  "plazaRingMatch [] = None"
| "plazaRingMatch (c # rest) =
     (if toUpperChar c \<in> set ''ABCDEFGHIJK'' \<and> wsThen ''PLAZA'' (toUpperCase rest)
      then Some c else plazaRingMatch rest)"

text \<open>
  \<^verbatim>\<open>/(\d{1,2}:\d{2}|\d{1,2})\s+Portal/\<close> tried at the head of \<open>s\<close>: the first alternative
  before the second, each with the longest run of one or two digits.
\<close>

definition portalAt :: "string \<Rightarrow> string option" where
  "portalAt s =
     (let d = takeWhile isDigit (take 2 s); n = length d; r = drop n s
      in if n = 0 then None
         else if length r \<ge> 3 \<and> hd r = CHR '':'' \<and> isDigit (r ! 1) \<and> isDigit (r ! 2) \<and>
                 wsThen ''Portal'' (drop 3 r)
           then Some (take (n + 3) s)
         else if wsThen ''Portal'' r then Some d
         else None)"

text \<open>The capture group of the leftmost match in the whole string.\<close>

fun portalMatch :: "string \<Rightarrow> string option" where
  "portalMatch [] = None"
| "portalMatch (c # cs) =
     (case portalAt (c # cs) of Some m \<Rightarrow> Some m | None \<Rightarrow> portalMatch cs)"

definition isClockish :: "string \<Rightarrow> bool" where
  "isClockish s = (CHR '':'' \<in> set s \<or> clockish_re s)"

text \<open>\<^verbatim>\<open>/^ESPL/i.test(s)\<close>\<close>

definition espl_re :: "string \<Rightarrow> bool" where
  "espl_re s = prefix ''ESPL'' (toUpperCase s)"

text \<open>The three lines every successful branch of \<open>coordOf\<close> ends with.\<close>

definition project :: "string \<Rightarrow> string \<Rightarrow> error + Coordinates" where
  "project ring clock =
     bind_err (radiusFeetForRing ring) (\<lambda>rf.
     bind_err (bearingFromClock clock) (\<lambda>bearing.
       Inr (destPoint MAN_lat MAN_lon (rf * FT2M) bearing)))"

text \<open>The intersection grammar: the part of \<open>coordOf\<close> from \<^verbatim>\<open>split("&")\<close> on.\<close>

definition coordOf_intersection :: "string \<Rightarrow> error + Coordinates" where
  "coordOf_intersection locationString =
     (let parts = map trim (js_split CHR ''&'' locationString);
          part1 = hd parts;
          part2 = (if length parts < 2 then [] else parts ! 1)
      in if part1 = [] \<or> part2 = [] then Inl (InvalidLocation locationString)
         else if isClockish part1 \<and> \<not> isClockish part2 then project part2 part1
         else if isClockish part2 \<and> \<not> isClockish part1 then project part1 part2
         else if espl_re part1 \<and> isClockish part2 then project part1 part2
         else if espl_re part2 \<and> isClockish part1 then project part2 part1
         else Inl (AmbiguousLocation locationString))"

text \<open>The portal grammar and everything after it.\<close>

definition coordOf_portal :: "string \<Rightarrow> error + Coordinates" where
  "coordOf_portal locationString =
     (if str_includes ''Portal'' locationString \<and> \<not> str_includes ''&'' locationString then
        (case portalMatch locationString of
           Some clock \<Rightarrow> project ''ESPLANADE'' clock
         | None \<Rightarrow> coordOf_intersection locationString)
      else coordOf_intersection locationString)"

definition coordOf :: "string \<Rightarrow> error + Coordinates" where
  "coordOf locationString =
     (if str_includes ''Plaza'' locationString then
        (if str_includes ''Center Camp Plaza'' locationString then project ''ESPLANADE'' ''6:00''
         else
           (let parts = map trim (js_split CHR ''@'' locationString)
            in if length parts = 2 then
                 (case plazaRingMatch (parts ! 0) of
                    Some ring \<Rightarrow> project [ring] (parts ! 1)
                  | None \<Rightarrow> coordOf_portal locationString)
               else coordOf_portal locationString))
      else coordOf_portal locationString)"

section \<open>types/events.ts\<close>

text \<open>
  A \<open>Date\<close> is its time value: \<open>Some t\<close> for \<open>t\<close> milliseconds, \<open>None\<close> for an
  Invalid Date (time value NaN). Field names that two interfaces share carry a prefix.
\<close>

type_synonym Date = "int option"

datatype EventStatus = NOW | SOON | UPCOMING | ENDED

datatype SortType = SortDefault | SortDistance | SortTime | SortEnding | SortByType | SortTitle

datatype LocationSource = SourceArt | SourceCamp | SourceOther | SourceUnknown

record EventType =
  label :: string
  abbr :: string

record EventOccurrence =
  start_time :: string
  end_time :: string

record RawEvent =
  uid :: string
  title :: string
  description :: "string option"
  year :: int
  event_type :: "EventType option"
  occurrence_set :: "EventOccurrence list"
  located_at_art :: "string option"
  hosted_by_camp :: "string option"
  other_location :: "string option"
  url :: "string option"
  contact_email :: "string option"
  all_day :: "bool option"

record ArtLocation =
  gps_latitude :: "real option"
  gps_longitude :: "real option"

record ArtInstallation =
  art_name :: string
  art_location :: "ArtLocation option"

record Camp =
  camp_name :: string
  location_string :: "string option"

record LocationInfo =
  loc_lat :: "jsnum option"
  loc_lon :: "jsnum option"
  loc_label :: string
  loc_source :: LocationSource

record ProcessedEvent =
  pe_id :: string
  eventUid :: string
  pe_title :: string
  pe_description :: string
  pe_type :: string
  typeAbbr :: string
  pe_start :: Date
  pe_end :: Date
  status :: EventStatus
  distance :: "real option"
  pe_lat :: "jsnum option"
  pe_lon :: "jsnum option"
  locLabel :: string
  isRecurring :: bool
  futureOccurrences :: string
  pe_url :: "string option"
  contactEmail :: "string option"
  allDay :: "bool option"

record SearchParams =
  sp_lat :: "jsnum option"
  sp_lon :: "jsnum option"
  sp_radius :: "real option"
  sp_window :: "int option"
  sp_year :: "int option"
  sp_now :: "Date option"
  sp_eventTypes :: "string list option"
  showOnlyActive :: "bool option"
  showOnlyUpcoming :: "bool option"
  showOnlyFavorites :: "bool option"

text \<open>
  What the processor takes from its runtime and its collaborators: the date parser behind
  \<^verbatim>\<open>new Date(string)\<close>, the local time zone offset in milliseconds, the successive readings
  of the wall clock (\<^verbatim>\<open>new Date()\<close>), the collation behind \<^verbatim>\<open>localeCompare\<close>, and the
  results of the data and favorites services.
\<close>

record Env =
  dateParse :: "string \<Rightarrow> Date"
  localTZA :: "int \<Rightarrow> int"
  wallClock :: "nat \<Rightarrow> int"
  localeCompare :: "string \<Rightarrow> string \<Rightarrow> int"
  loadEvents :: "int \<Rightarrow> error + RawEvent list"
  getArtMap :: "error + (string \<Rightarrow> ArtInstallation option)"
  getCampMap :: "error + (string \<Rightarrow> Camp option)"
  getFavoriteIds :: "error + string set"

definition defaultRadius :: real where "defaultRadius = 1000"
definition defaultTimeWindow :: int where "defaultTimeWindow = 90"
definition defaultYear :: int where "defaultYear = 2025"

section \<open>Runtime helpers of the event processor\<close>

text \<open>Comparison and arithmetic on time values, false and NaN on an Invalid Date.\<close>

definition num_le :: "int option \<Rightarrow> int option \<Rightarrow> bool" where
  "num_le a b = (case (a, b) of (Some x, Some y) \<Rightarrow> x \<le> y | _ \<Rightarrow> False)"

definition num_lt :: "int option \<Rightarrow> int option \<Rightarrow> bool" where
  "num_lt a b = (case (a, b) of (Some x, Some y) \<Rightarrow> x < y | _ \<Rightarrow> False)"

definition num_sub :: "int option \<Rightarrow> int option \<Rightarrow> int option" where
  "num_sub a b = (case (a, b) of (Some x, Some y) \<Rightarrow> Some (x - y) | _ \<Rightarrow> None)"

definition num_add :: "int option \<Rightarrow> int option \<Rightarrow> int option" where
  "num_add a b = (case (a, b) of (Some x, Some y) \<Rightarrow> Some (x + y) | _ \<Rightarrow> None)"

text \<open>
  \<^verbatim>\<open>new Date(value)\<close> on a number: an Invalid Date on NaN and beyond 8.64e15 milliseconds on
  either side of the epoch.
\<close>

definition maxTime :: int where
  "maxTime = 8640000000000000"

definition newDate :: "int option \<Rightarrow> int option" where
  "newDate v = (case v of Some t \<Rightarrow> (if \<bar>t\<bar> \<le> maxTime then Some t else None) | None \<Rightarrow> None)"

text \<open>Truthiness of an optional string and of a nullable number.\<close>

definition truthy_str :: "string option \<Rightarrow> string option" where
  "truthy_str x = (case x of Some s \<Rightarrow> (if s = [] then None else Some s) | None \<Rightarrow> None)"

definition truthy_num :: "jsnum option \<Rightarrow> bool" where
  "truthy_num x = (case x of Some (Num v) \<Rightarrow> v \<noteq> 0 | _ \<Rightarrow> False)"

text \<open>\<^verbatim>\<open>typeof x === 'number' && Number.isFinite(x)\<close>\<close>

definition isFiniteNumber :: "jsnum option \<Rightarrow> bool" where
  "isFiniteNumber x = (case x of Some (Num v) \<Rightarrow> True | _ \<Rightarrow> False)"

definition numValue :: "jsnum option \<Rightarrow> real" where
  "numValue x = (case x of Some (Num v) \<Rightarrow> v | _ \<Rightarrow> 0)"

text \<open>
  \<^verbatim>\<open>Array.prototype.sort(cmp)\<close>: a stable sort, \<open>x\<close> before \<open>y\<close> when \<open>cmp x y \<le> 0\<close>. The
  order that the language fixes is the one for a consistent comparator (a total preorder on
  the elements); there every stable sort returns what this insertion sort returns. For an
  inconsistent comparator, such as one that meets the NaN of an Invalid Date, the order is
  left to the engine, and the insertion sort is then one of the orders allowed.
\<close>

fun insert_by :: "('a \<Rightarrow> 'a \<Rightarrow> real) \<Rightarrow> 'a \<Rightarrow> 'a list \<Rightarrow> 'a list" where
  "insert_by cmp x [] = [x]"
| "insert_by cmp x (y # ys) = (if cmp x y \<le> 0 then x # y # ys else y # insert_by cmp x ys)"

definition js_sort :: "('a \<Rightarrow> 'a \<Rightarrow> real) \<Rightarrow> 'a list \<Rightarrow> 'a list" where
  "js_sort cmp xs = foldr (insert_by cmp) xs []"

text \<open>\<^verbatim>\<open>arr.indexOf(x)\<close> on an array.\<close>

fun arr_indexOf_from :: "'a list \<Rightarrow> 'a \<Rightarrow> nat \<Rightarrow> int" where
  "arr_indexOf_from [] x i = - 1"
| "arr_indexOf_from (y # ys) x i = (if y = x then int i else arr_indexOf_from ys x (Suc i))"

definition arr_indexOf :: "'a list \<Rightarrow> 'a \<Rightarrow> int" where
  "arr_indexOf xs x = arr_indexOf_from xs x 0"

text \<open>\<^verbatim>\<open>arr.filter((v, i, a) => a.indexOf(v) === i)\<close>: the first copy of each value stays.\<close>

fun dedupFirst :: "'a list \<Rightarrow> 'a list \<Rightarrow> 'a list" where
  "dedupFirst seen [] = []"
| "dedupFirst seen (x # xs) =
     (if x \<in> set seen then dedupFirst seen xs else x # dedupFirst (x # seen) xs)"

fun js_join :: "string \<Rightarrow> string list \<Rightarrow> string" where
  "js_join sep [] = []"
| "js_join sep [x] = x"
| "js_join sep (x # y # ys) = x @ sep @ js_join sep (y # ys)"

text \<open>\<^verbatim>\<open>getDay()\<close>: the day of the week of a time value in local time.\<close>

definition getDay :: "Env \<Rightarrow> int \<Rightarrow> nat" where
  "getDay env t = nat (((t + localTZA env t) div 86400000 + 4) mod 7)"

definition dayOrder :: "string list" where
  "dayOrder = [''Su'', ''M'', ''Tu'', ''W'', ''Th'', ''F'', ''S'']"

text \<open>The decimal digits of a natural number, as a template literal prints them.\<close>

function show_nat :: "nat \<Rightarrow> string" where
  "show_nat n =
     (if n < 10 then [''0123456789'' ! n]
      else show_nat (n div 10) @ [''0123456789'' ! (n mod 10)])"
  by pat_completeness auto
termination
  by (relation "measure id") auto

declare show_nat.simps [simp del]

section \<open>services/EventProcessor.ts\<close>

definition buffer :: int where
  "buffer = 15 * 60 * 1000"

definition determineEventStatus :: "Date \<Rightarrow> Date \<Rightarrow> Date \<Rightarrow> EventStatus" where
  "determineEventStatus start end' now =
     (if num_le start now \<and> num_le now end' \<and> num_le (Some buffer) (num_sub end' now) then NOW
      else if num_lt now start then
        (let timeUntilStart = num_sub start now
         in if num_le timeUntilStart (Some buffer) then SOON else UPCOMING)
      else ENDED)"

definition passesTimeFilter :: "Date \<Rightarrow> Date \<Rightarrow> Date \<Rightarrow> Date \<Rightarrow> EventStatus \<Rightarrow> bool" where
  "passesTimeFilter start end' now upcomingCutoff st =
     (let isActive = (num_le start now \<and> num_le now end' \<and>
                      num_le (Some buffer) (num_sub end' now));
          isUpcoming = (num_lt now start \<and> num_le start upcomingCutoff)
      in isActive \<or> isUpcoming)"

text \<open>
  The guards of the first two steps of \<open>resolveEventLocation\<close>: the art installation that
  the event links to and that the map holds, and the non-empty address of the camp that
  the event links to and that the map holds.
\<close>

definition linkedArt :: "(string \<Rightarrow> ArtInstallation option) \<Rightarrow> RawEvent \<Rightarrow> ArtInstallation option" where
  "linkedArt artMapCache event =
     (case truthy_str (located_at_art event) of Some a \<Rightarrow> artMapCache a | None \<Rightarrow> None)"

definition linkedCampAddress :: "(string \<Rightarrow> Camp option) \<Rightarrow> RawEvent \<Rightarrow> string option" where
  "linkedCampAddress campMapCache event =
     (case truthy_str (hosted_by_camp event) of
        Some c \<Rightarrow> (case campMapCache c of
                     Some camp \<Rightarrow> truthy_str (location_string camp)
                   | None \<Rightarrow> None)
      | None \<Rightarrow> None)"

definition resolveEventLocation ::
  "(string \<Rightarrow> ArtInstallation option) \<Rightarrow> (string \<Rightarrow> Camp option) \<Rightarrow> RawEvent \<Rightarrow>
   error + LocationInfo" where
  "resolveEventLocation artMapCache campMapCache event =
     (case linkedArt artMapCache event of
        Some art \<Rightarrow>
          (let lat' = (case art_location art of Some l \<Rightarrow> gps_latitude l | None \<Rightarrow> None);
               lon' = (case art_location art of Some l \<Rightarrow> gps_longitude l | None \<Rightarrow> None);
               label' = (if art_name art \<noteq> [] then ''@ '' @ art_name art else ''Art Location'')
           in Inr \<lparr>loc_lat = map_option Num lat', loc_lon = map_option Num lon',
                   loc_label = label', loc_source = SourceArt\<rparr>)
      | None \<Rightarrow>
          (case linkedCampAddress campMapCache event of
             Some ls \<Rightarrow>
               try_catch
                 (bind_err (coordOf ls) (\<lambda>coords.
                    Inr \<lparr>loc_lat = Some (lat coords), loc_lon = Some (lon coords),
                         loc_label = ''@ ['' @ ls @ '']'', loc_source = SourceCamp\<rparr>))
                 (\<lambda>err. Inr \<lparr>loc_lat = None, loc_lon = None,
                              loc_label = ''@ ['' @ ls @ '']'', loc_source = SourceCamp\<rparr>)
           | None \<Rightarrow>
               (case truthy_str (other_location event) of
                  Some ol \<Rightarrow>
                    try_catch
                      (bind_err (coordOf ol) (\<lambda>coords.
                         Inr \<lparr>loc_lat = Some (lat coords), loc_lon = Some (lon coords),
                              loc_label = ol, loc_source = SourceOther\<rparr>))
                      (\<lambda>err. Inr \<lparr>loc_lat = None, loc_lon = None,
                                   loc_label = ol, loc_source = SourceOther\<rparr>)
                | None \<Rightarrow>
                    Inr \<lparr>loc_lat = None, loc_lon = None,
                         loc_label = ''Location TBD'', loc_source = SourceUnknown\<rparr>)))"

text \<open>
  \<open>getFutureOccurrences\<close> reads the wall clock, not the \<open>now\<close> of the search: \<open>k\<close> counts
  the readings taken so far and the result carries the new count.
\<close>

definition getFutureOccurrences ::
  "Env \<Rightarrow> RawEvent list \<Rightarrow> nat \<Rightarrow> string \<Rightarrow> Date \<Rightarrow> string \<times> nat" where
  "getFutureOccurrences env originalEvents k eventUid' currentStart =
     (case find (\<lambda>e. uid e = eventUid') originalEvents of
        None \<Rightarrow> ([], k)
      | Some event \<Rightarrow>
          if length (occurrence_set event) \<le> 1 then ([], k)
          else
            (let now = Some (wallClock env k);
                 currentTime = currentStart;
                 future = filter
                   (\<lambda>occ. let occStart = dateParse env (start_time occ)
                          in num_lt now occStart \<and> (occStart = None \<or> occStart \<noteq> currentTime))
                   (occurrence_set event);
                 days = map (\<lambda>occ. dayOrder ! getDay env (the (dateParse env (start_time occ))))
                            future;
                 futureDays = js_sort
                   (\<lambda>a b. real_of_int (arr_indexOf dayOrder a - arr_indexOf dayOrder b))
                   (dedupFirst [] days)
             in (js_join '','' futureDays, Suc k)))"

text \<open>The variables of \<open>processEvents\<close> that the loop body reads.\<close>

record Locals =
  l_lat :: "jsnum option"
  l_lon :: "jsnum option"
  l_radius :: real
  l_now :: Date
  l_eventTypes :: "string list"
  l_showOnlyActive :: bool
  l_showOnlyUpcoming :: bool
  l_showOnlyFavorites :: bool
  l_events :: "RawEvent list"
  l_artMap :: "string \<Rightarrow> ArtInstallation option"
  l_campMap :: "string \<Rightarrow> Camp option"
  l_hasGPS :: bool
  l_upcomingCutoff :: Date
  l_favoriteIds :: "string set option"

text \<open>The record built under \<^verbatim>\<open>// Create processed event\<close>.\<close>

definition createProcessedEvent ::
  "RawEvent \<Rightarrow> EventOccurrence \<Rightarrow> Date \<Rightarrow> Date \<Rightarrow> EventStatus \<Rightarrow> real option \<Rightarrow>
   LocationInfo \<Rightarrow> string \<Rightarrow> ProcessedEvent" where
  "createProcessedEvent event occurrence start end' st dist' locationInfo fut =
     \<lparr>pe_id = uid event @ ''_'' @ start_time occurrence,
      eventUid = uid event,
      pe_title = (if title event \<noteq> [] then title event else ''Untitled Event''),
      pe_description = orDefault [] (description event),
      pe_type = (case event_type event of
                   Some et \<Rightarrow> (if label et \<noteq> [] then label et else ''Other'')
                 | None \<Rightarrow> ''Other''),
      typeAbbr = (case event_type event of
                    Some et \<Rightarrow> (if abbr et \<noteq> [] then abbr et else ''othr'')
                  | None \<Rightarrow> ''othr''),
      pe_start = start,
      pe_end = end',
      status = st,
      distance = dist',
      pe_lat = loc_lat locationInfo,
      pe_lon = loc_lon locationInfo,
      locLabel = loc_label locationInfo,
      isRecurring = (length (occurrence_set event) > 1),
      futureOccurrences = fut,
      pe_url = url event,
      contactEmail = contact_email event,
      allDay = all_day event\<rparr>"

text \<open>
  The body of the inner loop for one occurrence: \<open>None\<close> is \<^verbatim>\<open>continue\<close>, \<open>Some\<close> the
  record pushed; the number is the count of clock readings.
\<close>

definition processOccurrence ::
  "Env \<Rightarrow> Locals \<Rightarrow> RawEvent \<Rightarrow> EventOccurrence \<Rightarrow> nat \<Rightarrow>
   error + (ProcessedEvent option \<times> nat)" where
  "processOccurrence env L event occurrence k =
     (if start_time occurrence = [] \<or> end_time occurrence = [] then Inr (None, k)
      else
        (let start = dateParse env (start_time occurrence);
             end' = dateParse env (end_time occurrence);
             st = determineEventStatus start end' (l_now L)
         in if \<not> passesTimeFilter start end' (l_now L) (l_upcomingCutoff L) st then Inr (None, k)
            else
              bind_err (resolveEventLocation (l_artMap L) (l_campMap L) event) (\<lambda>locationInfo.
                (let measured = (l_hasGPS L \<and> truthy_num (loc_lat locationInfo) \<and>
                                 truthy_num (loc_lon locationInfo));
                     d = haversineMeters (numValue (l_lat L)) (numValue (l_lon L))
                           (numValue (loc_lat locationInfo)) (numValue (loc_lon locationInfo));
                     abbr' = (case event_type event of
                                Some et \<Rightarrow> (if abbr et \<noteq> [] then abbr et else ''othr'')
                              | None \<Rightarrow> ''othr'');
                     eventId = uid event @ ''_'' @ start_time occurrence
                 in if measured \<and> d > l_radius L then Inr (None, k)
                    else if abbr' \<notin> set (l_eventTypes L) then Inr (None, k)
                    else if l_showOnlyActive L \<and> st \<noteq> NOW then Inr (None, k)
                    else if l_showOnlyUpcoming L \<and> (st = ENDED \<or> st = NOW) then Inr (None, k)
                    else if l_showOnlyFavorites L \<and>
                            \<not> (case l_favoriteIds L of Some ids \<Rightarrow> eventId \<in> ids | None \<Rightarrow> False)
                      then Inr (None, k)
                    else
                      (let fk = getFutureOccurrences env (l_events L) k (uid event) start
                       in Inr (Some (createProcessedEvent event occurrence start end' st
                                       (if measured then Some d else None) locationInfo (fst fk)),
                               snd fk))))))"

fun occurrenceLoop ::
  "Env \<Rightarrow> Locals \<Rightarrow> RawEvent \<Rightarrow> EventOccurrence list \<Rightarrow> ProcessedEvent list \<times> nat \<Rightarrow>
   error + (ProcessedEvent list \<times> nat)" where
  "occurrenceLoop env L event [] acc = Inr acc"
| "occurrenceLoop env L event (occ # occs) acc =
     bind_err (processOccurrence env L event occ (snd acc)) (\<lambda>r.
       occurrenceLoop env L event occs
         (case fst r of None \<Rightarrow> fst acc | Some pe \<Rightarrow> fst acc @ [pe], snd r))"

fun eventLoop ::
  "Env \<Rightarrow> Locals \<Rightarrow> RawEvent list \<Rightarrow> ProcessedEvent list \<times> nat \<Rightarrow>
   error + (ProcessedEvent list \<times> nat)" where
  "eventLoop env L [] acc = Inr acc"
| "eventLoop env L (event # events) acc =
     bind_err (occurrenceLoop env L event (occurrence_set event) acc) (eventLoop env L events)"

text \<open>The loop variables that \<open>processEvents\<close> sets up from its parameters and loaded data.\<close>

definition mkLocals ::
  "Env \<Rightarrow> SearchParams \<Rightarrow> RawEvent list \<Rightarrow> (string \<Rightarrow> ArtInstallation option) \<Rightarrow>
   (string \<Rightarrow> Camp option) \<Rightarrow> string set option \<Rightarrow> Locals" where
  "mkLocals env searchParams events artMap campMap favoriteIds =
     (let now = (case sp_now searchParams of Some d \<Rightarrow> d | None \<Rightarrow> Some (wallClock env 0));
          timeWindow = orDefault defaultTimeWindow (sp_window searchParams)
      in \<lparr>l_lat = sp_lat searchParams,
          l_lon = sp_lon searchParams,
          l_radius = orDefault defaultRadius (sp_radius searchParams),
          l_now = now,
          l_eventTypes = orDefault
            [''prty'', ''food'', ''tea'', ''arts'', ''work'', ''kid'', ''adlt'', ''othr'']
            (sp_eventTypes searchParams),
          l_showOnlyActive = orDefault False (showOnlyActive searchParams),
          l_showOnlyUpcoming = orDefault False (showOnlyUpcoming searchParams),
          l_showOnlyFavorites = orDefault False (showOnlyFavorites searchParams),
          l_events = events,
          l_artMap = artMap,
          l_campMap = campMap,
          l_hasGPS = (isFiniteNumber (sp_lat searchParams) \<and>
                      isFiniteNumber (sp_lon searchParams)),
          l_upcomingCutoff = newDate (num_add now (Some (timeWindow * 60 * 1000))),
          l_favoriteIds = favoriteIds\<rparr>)"

definition processEvents :: "Env \<Rightarrow> SearchParams \<Rightarrow> error + ProcessedEvent list" where
  "processEvents env searchParams =
     (let year' = orDefault defaultYear (sp_year searchParams);
          k0 = (case sp_now searchParams of Some d \<Rightarrow> 0 | None \<Rightarrow> Suc 0)
      in bind_err (loadEvents env year') (\<lambda>events.
         bind_err (getArtMap env) (\<lambda>artMap.
         bind_err (getCampMap env) (\<lambda>campMap.
         bind_err (if orDefault False (showOnlyFavorites searchParams)
                   then bind_err (getFavoriteIds env) (\<lambda>ids. Inr (Some ids))
                   else Inr None) (\<lambda>favoriteIds.
         bind_err
           (eventLoop env (mkLocals env searchParams events artMap campMap favoriteIds)
              events ([], k0))
           (\<lambda>r. Inr (fst r)))))))"

text \<open>The comparator of each strategy of \<open>sortEvents\<close>.\<close>

definition statusPriority :: "EventStatus \<Rightarrow> int" where
  "statusPriority s = (case s of NOW \<Rightarrow> 0 | SOON \<Rightarrow> 1 | UPCOMING \<Rightarrow> 2 | ENDED \<Rightarrow> 3)"

text \<open>\<^verbatim>\<open>a.getTime() - b.getTime()\<close> as a comparator result; NaN sorts like 0.\<close>

definition timeDiff :: "Date \<Rightarrow> Date \<Rightarrow> real" where
  "timeDiff a b = (case num_sub a b of Some d \<Rightarrow> real_of_int d | None \<Rightarrow> 0)"

definition compareEvents ::
  "Env \<Rightarrow> SortType \<Rightarrow> ProcessedEvent \<Rightarrow> ProcessedEvent \<Rightarrow> real" where
  "compareEvents env sortType a b =
     (case sortType of
        SortDistance \<Rightarrow>
          (case (distance a, distance b) of
             (None, None) \<Rightarrow> 0
           | (None, Some db) \<Rightarrow> 1
           | (Some da, None) \<Rightarrow> - 1
           | (Some da, Some db) \<Rightarrow> da - db)
      | SortTime \<Rightarrow> timeDiff (pe_start a) (pe_start b)
      | SortEnding \<Rightarrow>
          (if status a = NOW \<and> status b = NOW then timeDiff (pe_end a) (pe_end b)
           else if status a = NOW \<and> status b \<noteq> NOW then - 1
           else if status a \<noteq> NOW \<and> status b = NOW then 1
           else timeDiff (pe_start a) (pe_start b))
      | SortByType \<Rightarrow>
          (if typeAbbr a \<noteq> typeAbbr b
           then real_of_int (localeCompare env (typeAbbr a) (typeAbbr b))
           else timeDiff (pe_start a) (pe_start b))
      | SortTitle \<Rightarrow>
          (if pe_title a \<noteq> pe_title b
           then real_of_int (localeCompare env (pe_title a) (pe_title b))
           else timeDiff (pe_start a) (pe_start b))
      | SortDefault \<Rightarrow>
          (let aPriority = statusPriority (status a); bPriority = statusPriority (status b)
           in if aPriority \<noteq> bPriority then real_of_int (aPriority - bPriority)
              else if status a = NOW then timeDiff (pe_end a) (pe_end b)
              else timeDiff (pe_start a) (pe_start b)))"

definition sortEvents ::
  "Env \<Rightarrow> ProcessedEvent list \<Rightarrow> SortType \<Rightarrow> Date \<Rightarrow> ProcessedEvent list" where
  "sortEvents env events sortType currentTime = js_sort (compareEvents env sortType) events"

text \<open>\<open>formatCountdown\<close> of the event processor.\<close>

definition formatCountdown :: "int \<Rightarrow> string" where
  "formatCountdown minutes =
     (if \<bar>minutes\<bar> < 60 then show_nat (nat \<bar>minutes\<bar>) @ ''m''
      else
        (let hours = \<bar>minutes\<bar> div 60;
             remainingMinutes = \<bar>minutes\<bar> mod 60;
             sign = (if minutes < 0 then ''-'' else [])
         in if remainingMinutes = 0 then sign @ show_nat (nat hours) @ ''h''
            else sign @ show_nat (nat hours) @ ''h '' @ show_nat (nat remainingMinutes) @ ''m''))"

section \<open>utils/timeUtils.ts\<close>

definition timeUtils_formatCountdown :: "int \<Rightarrow> string" where
  "timeUtils_formatCountdown minutes =
     (let absMinutes = \<bar>minutes\<bar>
      in if absMinutes < 60 then show_nat (nat absMinutes) @ ''m''
         else
           (let hours = absMinutes div 60;
                remainingMinutes = absMinutes mod 60
            in if remainingMinutes = 0 then show_nat (nat hours) @ ''h''
               else show_nat (nat hours) @ ''h '' @ show_nat (nat remainingMinutes) @ ''m''))"

section \<open>The specification's own definitions\<close>

text \<open>The four-case status of the data model, in the words of the specification.\<close>

definition spec_status :: "int \<Rightarrow> int \<Rightarrow> int \<Rightarrow> EventStatus" where
  "spec_status start end' now =
     (if start \<le> now \<and> now \<le> end' \<and> end' - now \<ge> 15 * 60 * 1000 then NOW
      else if now < start \<and> start - now \<le> 15 * 60 * 1000 then SOON
      else if now < start \<and> start - now > 15 * 60 * 1000 then UPCOMING
      else ENDED)"

text \<open>
  The clock notations of the specification (section 4.1): \<open>H\<close>, \<open>H:MM\<close>, \<open>HMM\<close> with two
  to four digits, and a decimal fraction of an hour; the hour \<open>H\<close> has one or two digits.
\<close>

definition clock_H :: "string \<Rightarrow> bool" where
  "clock_H c = (1 \<le> length c \<and> length c \<le> 2 \<and> list_all isDigit c)"

definition clock_HMM :: "string \<Rightarrow> bool" where
  "clock_HMM c = (2 \<le> length c \<and> length c \<le> 4 \<and> list_all isDigit c)"

definition clock_H_MM :: "string \<Rightarrow> bool" where
  "clock_H_MM c =
     (let h = takeWhile isDigit c; r = dropWhile isDigit c
      in 1 \<le> length h \<and> length h \<le> 2 \<and> length r = 3 \<and> hd r = CHR '':'' \<and>
         list_all isDigit (tl r))"

definition clock_decimal :: "string \<Rightarrow> bool" where
  "clock_decimal c =
     (let h = takeWhile isDigit c; r = dropWhile isDigit c
      in 1 \<le> length h \<and> length h \<le> 2 \<and> r \<noteq> [] \<and> hd r = CHR ''.'' \<and> tl r \<noteq> [] \<and>
         list_all isDigit (tl r))"

definition valid_clock :: "string \<Rightarrow> bool" where
  "valid_clock c = (clock_H c \<or> clock_H_MM c \<or> clock_HMM c \<or> clock_decimal c)"

text \<open>A ring name: one ring letter, or the Esplanade keyword, in either case of letters.\<close>

definition valid_ring :: "string \<Rightarrow> bool" where
  "valid_ring r =
     ((length r = 1 \<and> toUpperChar (hd r) \<in> set ring_order) \<or> toUpperCase r = ''ESPLANADE'')"

text \<open>Character classes used in the proofs about the geocoder.\<close>

definition clock_char :: "char \<Rightarrow> bool" where
  "clock_char x = (isDigit x \<or> x = CHR '':'' \<or> x = CHR ''.'')"

definition letterish :: "char \<Rightarrow> bool" where
  "letterish x = (toUpperChar x \<in> set ''ABCDEFGHIJKLMNOPQRSTUVWXY'')"

text \<open>A token of an intersection: visible at both ends, free of the separator and of \<open>z\<close>.\<close>

definition token :: "string \<Rightarrow> bool" where
  "token a = (a \<noteq> [] \<and> \<not> isSpace (hd a) \<and> \<not> isSpace (last a) \<and>
              CHR ''&'' \<notin> set a \<and> CHR ''z'' \<notin> set a)"

text \<open>A processed event without its list of the days of later occurrences.\<close>

definition withoutFuture :: "ProcessedEvent \<Rightarrow> ProcessedEvent" where
  "withoutFuture pe = pe\<lparr>futureOccurrences := []\<rparr>"

text \<open>
  The admission rule of the time window in the words of the specification, on time values
  in milliseconds and a window in minutes.
\<close>

definition spec_admits :: "int \<Rightarrow> int \<Rightarrow> int \<Rightarrow> int \<Rightarrow> bool" where
  "spec_admits now w start end' =
     ((start \<le> now \<and> now \<le> end' \<and> end' - now \<ge> 15 * 60 * 1000) \<or>
      (now < start \<and> start \<le> now + w * 60 * 1000))"

text \<open>
  The filters of the loop body of \<open>processEvents\<close> that follow the time filter: radius, event
  type, active only, upcoming only and favorites only, each as the condition under which the
  body goes on.
\<close>

definition passesLaterFilters ::
  "Locals \<Rightarrow> RawEvent \<Rightarrow> EventOccurrence \<Rightarrow> EventStatus \<Rightarrow> LocationInfo \<Rightarrow> bool" where
  "passesLaterFilters L event occurrence st locationInfo =
     (\<not> (l_hasGPS L \<and> truthy_num (loc_lat locationInfo) \<and> truthy_num (loc_lon locationInfo) \<and>
         haversineMeters (numValue (l_lat L)) (numValue (l_lon L))
           (numValue (loc_lat locationInfo)) (numValue (loc_lon locationInfo)) > l_radius L)
      \<and> (case event_type event of
            Some et \<Rightarrow> (if abbr et \<noteq> [] then abbr et else ''othr'')
          | None \<Rightarrow> ''othr'') \<in> set (l_eventTypes L)
      \<and> \<not> (l_showOnlyActive L \<and> st \<noteq> NOW)
      \<and> \<not> (l_showOnlyUpcoming L \<and> (st = ENDED \<or> st = NOW))
      \<and> \<not> (l_showOnlyFavorites L \<and>
            \<not> (case l_favoriteIds L of
                  Some ids \<Rightarrow> uid event @ ''_'' @ start_time occurrence \<in> ids
                | None \<Rightarrow> False)))"

section \<open>A small data set for closed instances\<close>

definition demoParse :: "string \<Rightarrow> Date" where
  "demoParse = map_of
     [(''2025-08-29T00:30:00Z'', 1756427400000),
      (''2025-08-29T01:00:00Z'', 1756429200000),
      (''2025-08-29T01:10:00Z'', 1756429800000),
      (''2025-08-29T02:00:00Z'', 1756432800000),
      (''2025-08-29T02:10:00Z'', 1756433400000),
      (''2025-08-29T02:30:00Z'', 1756434600000),
      (''2025-08-29T02:30:01Z'', 1756434601000),
      (''2025-08-29T03:30:00Z'', 1756438200000),
      (''2025-08-30T01:10:00Z'', 1756516200000),
      (''2025-08-30T02:10:00Z'', 1756519800000)]"

text \<open>The search time of the instances: 2025-08-29T01:00:00Z, 18:00 on Thursday in the city.\<close>

definition demoNow :: int where
  "demoNow = 1756429200000"

fun demoCollation :: "string \<Rightarrow> string \<Rightarrow> int" where
  "demoCollation [] [] = 0"
| "demoCollation [] (y # ys) = - 1"
| "demoCollation (x # xs) [] = 1"
| "demoCollation (x # xs) (y # ys) =
     (if x = y then demoCollation xs ys
      else if (of_char x :: nat) < of_char y then - 1 else 1)"

definition demoArtMap :: "string \<Rightarrow> ArtInstallation option" where
  "demoArtMap = map_of
     [(''a1'', \<lparr>art_name = ''Null Island'',
               art_location = Some \<lparr>gps_latitude = Some 0, gps_longitude = Some 0\<rparr>\<rparr>)]"

definition demoCampMap :: "string \<Rightarrow> Camp option" where
  "demoCampMap = map_of
     [(''c1'', \<lparr>camp_name = ''Camp Tea'', location_string = Some ''Behind the big tent''\<rparr>)]"

definition demoEnv :: "RawEvent list \<Rightarrow> (nat \<Rightarrow> int) \<Rightarrow> Env" where
  "demoEnv events clock =
     \<lparr>dateParse = demoParse,
      localTZA = (\<lambda>t. - 25200000),
      wallClock = clock,
      localeCompare = demoCollation,
      loadEvents = (\<lambda>y. Inr (filter (\<lambda>e. year e = y) events)),
      getArtMap = Inr demoArtMap,
      getCampMap = Inr demoCampMap,
      getFavoriteIds = Inr {}\<rparr>"

definition demoEvent ::
  "string \<Rightarrow> string \<Rightarrow> EventOccurrence list \<Rightarrow> string option \<Rightarrow> string option \<Rightarrow>
   string option \<Rightarrow> RawEvent" where
  "demoEvent u t occs art camp other =
     \<lparr>uid = u, title = t, description = None, year = 2025, event_type = None,
      occurrence_set = occs, located_at_art = art, hosted_by_camp = camp,
      other_location = other, url = None, contact_email = None, all_day = None\<rparr>"

definition demoParams :: "jsnum option \<Rightarrow> jsnum option \<Rightarrow> SearchParams" where
  "demoParams viewerLat viewerLon =
     \<lparr>sp_lat = viewerLat, sp_lon = viewerLon, sp_radius = None, sp_window = None,
      sp_year = None, sp_now = Some (Some demoNow), sp_eventTypes = None,
      showOnlyActive = None, showOnlyUpcoming = None, showOnlyFavorites = None\<rparr>"

text \<open>A recurring event on Thursday and Friday evening, at a place that is no address.\<close>

definition yogaEvent :: RawEvent where
  "yogaEvent = demoEvent ''yoga'' ''Sunset Yoga''
     [\<lparr>start_time = ''2025-08-29T01:10:00Z'', end_time = ''2025-08-29T02:10:00Z''\<rparr>,
      \<lparr>start_time = ''2025-08-30T01:10:00Z'', end_time = ''2025-08-30T02:10:00Z''\<rparr>]
     None None (Some ''Far side of the playa'')"

text \<open>An event under way at a camp whose address does not parse.\<close>

definition teaEvent :: RawEvent where
  "teaEvent = demoEvent ''tea'' ''Camp Tea''
     [\<lparr>start_time = ''2025-08-29T00:30:00Z'', end_time = ''2025-08-29T02:00:00Z''\<rparr>]
     None (Some ''c1'') None"

text \<open>An event under way at an art installation recorded at latitude 0, longitude 0.\<close>

definition artEvent :: RawEvent where
  "artEvent = demoEvent ''art'' ''Art Tour''
     [\<lparr>start_time = ''2025-08-29T00:30:00Z'', end_time = ''2025-08-29T02:00:00Z''\<rparr>]
     (Some ''a1'') None None"

text \<open>
  Events at the camp with a single occurrence: one that starts exactly 90 minutes after the
  search time, one that starts a second later, and one of ten minutes that starts at the
  search time.
\<close>

definition edgeEvent :: RawEvent where
  "edgeEvent = demoEvent ''edge'' ''Late Set''
     [\<lparr>start_time = ''2025-08-29T02:30:00Z'', end_time = ''2025-08-29T03:30:00Z''\<rparr>]
     None (Some ''c1'') None"

definition lateEvent :: RawEvent where
  "lateEvent = demoEvent ''late'' ''Later Set''
     [\<lparr>start_time = ''2025-08-29T02:30:01Z'', end_time = ''2025-08-29T03:30:00Z''\<rparr>]
     None (Some ''c1'') None"

definition briefEvent :: RawEvent where
  "briefEvent = demoEvent ''brief'' ''Gong''
     [\<lparr>start_time = ''2025-08-29T01:00:00Z'', end_time = ''2025-08-29T01:10:00Z''\<rparr>]
     None (Some ''c1'') None"

text \<open>An event that links an art installation, a camp and a free-text place at once.\<close>

definition artTeaEvent :: RawEvent where
  "artTeaEvent = demoEvent ''arttea'' ''Tea at the Island''
     [\<lparr>start_time = ''2025-08-29T00:30:00Z'', end_time = ''2025-08-29T02:00:00Z''\<rparr>]
     (Some ''a1'') (Some ''c1'') (Some ''Far side of the playa'')"

section \<open>Sorting\<close>

text \<open>
  What the sort strategies by type and by title need of \<^verbatim>\<open>localeCompare\<close> on the strings of a
  list: any two strings are comparable, the comparison is transitive, and only equal strings
  compare as equal.
\<close>

definition collation_on :: "(string \<Rightarrow> string \<Rightarrow> int) \<Rightarrow> string set \<Rightarrow> bool" where
  "collation_on lc S =
     (\<forall>x\<in>S. \<forall>y\<in>S. \<forall>z\<in>S.
        (lc x y \<le> 0 \<or> lc y x \<le> 0) \<and>
        (lc x y \<le> 0 \<and> lc y z \<le> 0 \<longrightarrow> lc x z \<le> 0) \<and>
        (lc x y \<le> 0 \<and> lc y x \<le> 0 \<longrightarrow> x = y))"

text \<open>Processed events for closed instances of sorting.\<close>

definition demoCard ::
  "string \<Rightarrow> string \<Rightarrow> string \<Rightarrow> int \<Rightarrow> int \<Rightarrow> EventStatus \<Rightarrow> real option \<Rightarrow> ProcessedEvent" where
  "demoCard u t ab s e st d =
     \<lparr>pe_id = u @ ''_2025-08-29'', eventUid = u, pe_title = t, pe_description = [],
      pe_type = ''Other'', typeAbbr = ab, pe_start = Some s, pe_end = Some e, status = st,
      distance = d, pe_lat = None, pe_lon = None, locLabel = ''@ [Location Unknown]'',
      isRecurring = False, futureOccurrences = [], pe_url = None, contactEmail = None,
      allDay = None\<rparr>"

text \<open>Two events of two hosts with the same title, type, times, status and distance.\<close>

definition happyHourA :: ProcessedEvent where
  "happyHourA = demoCard ''a'' ''Happy Hour'' ''prty'' 1756429800000 1756433400000 SOON None"

definition happyHourB :: ProcessedEvent where
  "happyHourB = demoCard ''b'' ''Happy Hour'' ''prty'' 1756429800000 1756433400000 SOON None"

text \<open>Two events that differ in every field that a comparator reads.\<close>

definition acroJam :: ProcessedEvent where
  "acroJam = demoCard ''j'' ''Acro Jam'' ''work'' 1756431000000 1756436400000 UPCOMING (Some 120)"

definition bikeRepair :: ProcessedEvent where
  "bikeRepair = demoCard ''k'' ''Bike Repair'' ''care'' 1756427400000 1756432800000 NOW (Some 80)"

section \<open>Event status\<close>

lemma status_valid:
  "determineEventStatus (Some s) (Some e) (Some n) =
     (if s \<le> n \<and> n \<le> e \<and> 900000 \<le> e - n then NOW
      else if n < s then (if s - n \<le> 900000 then SOON else UPCOMING)
      else ENDED)"
  by (simp add: determineEventStatus_def num_le_def num_lt_def num_sub_def buffer_def)

text \<open>
  C2. On valid dates \<open>determineEventStatus\<close> is the four-case definition of the
  specification with a buffer of 15 minutes: NOW iff \<open>start \<le> now \<le> end\<close> and
  \<open>end - now \<ge> buffer\<close>; SOON iff \<open>now < start\<close> and \<open>start - now \<le> buffer\<close>; UPCOMING iff
  \<open>now < start\<close> and \<open>start - now > buffer\<close>; ENDED otherwise. With \<open>start \<le> now\<close>, an
  occurrence that ends at \<open>now + 15\<close> minutes is NOW and one that ends at \<open>now + 14\<close>
  minutes is ENDED.
\<close>

theorem determineEventStatus_four_cases:
  "determineEventStatus (Some start) (Some end') (Some now) = spec_status start end' now
   \<and> (determineEventStatus (Some start) (Some end') (Some now) = NOW
        \<longleftrightarrow> start \<le> now \<and> now \<le> end' \<and> end' - now \<ge> 15 * 60 * 1000)
   \<and> (determineEventStatus (Some start) (Some end') (Some now) = SOON
        \<longleftrightarrow> now < start \<and> start - now \<le> 15 * 60 * 1000)
   \<and> (determineEventStatus (Some start) (Some end') (Some now) = UPCOMING
        \<longleftrightarrow> now < start \<and> start - now > 15 * 60 * 1000)
   \<and> (determineEventStatus (Some start) (Some end') (Some now) = ENDED
        \<longleftrightarrow> \<not> (start \<le> now \<and> now \<le> end' \<and> end' - now \<ge> 15 * 60 * 1000) \<and> \<not> now < start)
   \<and> (start \<le> now \<longrightarrow>
        determineEventStatus (Some start) (Some (now + 15 * 60 * 1000)) (Some now) = NOW)
   \<and> (start \<le> now \<longrightarrow>
        determineEventStatus (Some start) (Some (now + 14 * 60 * 1000)) (Some now) = ENDED)"
  by (simp add: status_valid spec_status_def)

theorem determineEventStatus_four_cases_witness:
  "(0::int) \<le> 1000
   \<and> determineEventStatus (Some 0) (Some (1000 + 15 * 60 * 1000)) (Some 1000) = NOW
   \<and> determineEventStatus (Some 0) (Some (1000 + 14 * 60 * 1000)) (Some 1000) = ENDED"
  using determineEventStatus_four_cases [of 0 0 1000] by simp

section \<open>Countdown formatting\<close>

lemma show_nat_small: "n < 10 \<Longrightarrow> show_nat n = [''0123456789'' ! n]"
  by (simp add: show_nat.simps)

lemma show_nat_large:
  "10 \<le> n \<Longrightarrow> show_nat n = show_nat (n div 10) @ [''0123456789'' ! (n mod 10)]"
  by (subst show_nat.simps) simp

text \<open>
  C9, as stated, fails: for \<open>-120\<close> minutes the event processor prints \<open>-2h\<close> and the time
  utilities print \<open>2h\<close>.
\<close>

theorem formatCountdown_differs_counterexample:
  "formatCountdown (- 120) = ''-2h'' \<and> timeUtils_formatCountdown (- 120) = ''2h''
   \<and> formatCountdown (- 120) \<noteq> timeUtils_formatCountdown (- 120)"
  by (simp add: formatCountdown_def timeUtils_formatCountdown_def show_nat_small)

text \<open>
  C9, amended. The two formatters print the same string for every integer above \<open>-60\<close>;
  for every integer \<open>minutes \<le> -60\<close> the event processor prints the string of the time
  utilities with a minus sign in front.
\<close>

theorem formatCountdown_sign:
  "formatCountdown minutes =
     (if minutes \<le> - 60 then ''-'' @ timeUtils_formatCountdown minutes
      else timeUtils_formatCountdown minutes)"
  by (auto simp add: formatCountdown_def timeUtils_formatCountdown_def Let_def)

theorem formatCountdown_sign_witness:
  "formatCountdown 150 = ''2h 30m'' \<and> timeUtils_formatCountdown 150 = ''2h 30m''
   \<and> formatCountdown (- 45) = timeUtils_formatCountdown (- 45)
   \<and> formatCountdown (- 150) = ''-'' @ timeUtils_formatCountdown (- 150)"
  using formatCountdown_sign [of 150] formatCountdown_sign [of "- 45"]
    formatCountdown_sign [of "- 150"]
  by (simp add: timeUtils_formatCountdown_def show_nat_small show_nat_large)

section \<open>The geocoder: strings\<close>

lemma dropWhile_pad:
  "list_all P p \<Longrightarrow> s \<noteq> [] \<Longrightarrow> \<not> P (hd s) \<Longrightarrow> dropWhile P (p @ s) = s"
  by (induction p) (auto simp add: neq_Nil_conv)

lemma trim_pad:
  assumes "list_all isSpace p" "list_all isSpace q" "s \<noteq> []"
    "\<not> isSpace (hd s)" "\<not> isSpace (last s)"
  shows "trim (p @ s @ q) = s"
proof -
  have 1: "dropWhile isSpace (p @ s @ q) = s @ q"
    using dropWhile_pad [of isSpace p "s @ q"] assms(1,3,4) by simp
  have "list_all isSpace (rev q)" "rev s \<noteq> []" "\<not> isSpace (hd (rev s))"
    using assms(2,3,5) by (simp_all add: hd_rev)
  then have 2: "dropWhile isSpace (rev q @ rev s) = rev s"
    by (rule dropWhile_pad)
  show ?thesis by (simp add: trim_def 1 2)
qed

lemma trim_id: "s \<noteq> [] \<Longrightarrow> \<not> isSpace (hd s) \<Longrightarrow> \<not> isSpace (last s) \<Longrightarrow> trim s = s"
  using trim_pad [of "[]" "[]" s] by simp

lemma split_no_sep: "d \<notin> set a \<Longrightarrow> js_split d a = [a]"
  by (induction a) auto

lemma split_one_sep: "d \<notin> set a \<Longrightarrow> js_split d (a @ d # b) = a # js_split d b"
  by (induction a) auto

lemma includes_char: "str_includes [ch] s \<longleftrightarrow> ch \<in> set s"
  by (induction s) auto

lemma includes_subset: "str_includes sub s \<Longrightarrow> set sub \<subseteq> set s"
proof (induction s)
  case Nil
  then show ?case by simp
next
  case (Cons x xs)
  then show ?case using set_mono_prefix [of sub "x # xs"] by auto
qed

lemma includes_prefix: "prefix sub s \<Longrightarrow> str_includes sub s"
  by (cases s) auto

lemma includes_append: "str_includes sub (a @ sub @ b)"
  by (induction a) (simp_all add: includes_prefix)

lemma no_z_no_Plaza: "CHR ''z'' \<notin> set s \<Longrightarrow> \<not> str_includes ''Plaza'' s"
  using includes_subset [of "''Plaza''" s] by auto

lemma toUpperChar_id: "x \<notin> set ''abcdefghijklmnopqrstuvwxyz'' \<Longrightarrow> toUpperChar x = x"
proof -
  assume a: "x \<notin> set ''abcdefghijklmnopqrstuvwxyz''"
  have "map_of (zip ''abcdefghijklmnopqrstuvwxyz'' ''ABCDEFGHIJKLMNOPQRSTUVWXYZ'') x = None"
    by (subst map_of_zip_is_None) (use a in simp_all)
  then show ?thesis by (simp only: toUpperChar_def option.case)
qed

lemma digit_not_space: "isDigit x \<Longrightarrow> \<not> isSpace x"
  by (auto simp add: isDigit_def isSpace_def)

lemma digit_upper: "isDigit x \<Longrightarrow> toUpperChar x = x"
  unfolding isDigit_def
  by (simp only: list.set insert_iff empty_iff, elim disjE; simp add: toUpperChar_def)

lemma space_upper: "isSpace x \<Longrightarrow> toUpperChar x = x"
  unfolding isSpace_def
  by (simp only: list.set insert_iff empty_iff, elim disjE; simp add: toUpperChar_def)

lemma clock_char_not_space: "clock_char x \<Longrightarrow> \<not> isSpace x"
  by (auto simp add: clock_char_def isDigit_def isSpace_def)

lemma clock_char_upper: "clock_char x \<Longrightarrow> toUpperChar x = x"
  unfolding clock_char_def using digit_upper by (elim disjE; simp add: toUpperChar_def)

lemma clock_char_other: "clock_char x \<Longrightarrow> x \<noteq> CHR ''&'' \<and> x \<noteq> CHR ''z''"
  by (auto simp add: clock_char_def isDigit_def)

lemma digits_clock_chars: "list_all isDigit c \<Longrightarrow> list_all clock_char c"
  by (simp add: list_all_iff clock_char_def)

lemma sep_digits_shape:
  assumes "1 \<le> length (takeWhile isDigit c)" "dropWhile isDigit c \<noteq> []"
    "hd (dropWhile isDigit c) = sep" "clock_char sep" "\<not> isDigit sep"
    "tl (dropWhile isDigit c) \<noteq> []" "list_all isDigit (tl (dropWhile isDigit c))"
  shows "c \<noteq> [] \<and> list_all clock_char c \<and> isDigit (hd c) \<and> isDigit (last c) \<and> sep \<in> set c"
proof -
  define h where "h = takeWhile isDigit c"
  define r where "r = dropWhile isDigit c"
  have c: "c = h @ r" by (simp add: h_def r_def)
  have hd: "list_all isDigit h" unfolding h_def list_all_iff by (auto dest: set_takeWhileD)
  have hne: "h \<noteq> []" using assms(1) by (auto simp add: h_def)
  obtain t where r: "r = sep # t" "t \<noteq> []" "list_all isDigit t"
    using assms(2,3,6,7) unfolding r_def [symmetric] by (cases r) auto
  have "isDigit (hd c)" using hne hd c by (cases h) auto
  moreover have "isDigit (last c)" using r c by (auto simp add: list_all_iff)
  moreover have "list_all clock_char c"
    using hd r assms(4) c by (auto simp add: list_all_iff clock_char_def)
  ultimately show ?thesis using c r hne by auto
qed

lemma colon_facts: "clock_char CHR '':''" "\<not> isDigit CHR '':''"
  by (simp_all add: clock_char_def isDigit_def)

lemma dot_facts: "clock_char CHR ''.''" "\<not> isDigit CHR ''.''"
  by (simp_all add: clock_char_def isDigit_def)

lemma valid_clock_chars:
  assumes "valid_clock c"
  shows "c \<noteq> [] \<and> list_all clock_char c \<and> isDigit (hd c) \<and> isDigit (last c)"
proof -
  consider (d) "1 \<le> length c" "list_all isDigit c" | (hm) "clock_H_MM c" | (dec) "clock_decimal c"
    using assms by (auto simp add: valid_clock_def clock_H_def clock_HMM_def)
  then show ?thesis
  proof cases
    case d
    then have ne: "c \<noteq> []" by auto
    then have "isDigit (hd c)" "isDigit (last c)" using d by (auto simp add: list_all_iff)
    then show ?thesis using d ne digits_clock_chars by simp
  next
    case hm
    then have f: "1 \<le> length (takeWhile isDigit c)" "length (dropWhile isDigit c) = 3"
      "hd (dropWhile isDigit c) = CHR '':''" "list_all isDigit (tl (dropWhile isDigit c))"
      by (simp_all add: clock_H_MM_def Let_def)
    from f(2) have "dropWhile isDigit c \<noteq> []" "tl (dropWhile isDigit c) \<noteq> []"
      by (cases "dropWhile isDigit c"; force)+
    then show ?thesis
      using sep_digits_shape [of c "CHR '':''"] f colon_facts by simp
  next
    case dec
    then have f: "1 \<le> length (takeWhile isDigit c)" "dropWhile isDigit c \<noteq> []"
      "hd (dropWhile isDigit c) = CHR ''.''" "tl (dropWhile isDigit c) \<noteq> []"
      "list_all isDigit (tl (dropWhile isDigit c))"
      by (simp_all add: clock_decimal_def Let_def)
    then show ?thesis
      using sep_digits_shape [of c "CHR ''.''"] dot_facts by simp
  qed
qed

lemma clock_normal:
  assumes "c \<noteq> []" "list_all clock_char c"
  shows "removeSpaces (toUpperCase (trim c)) = c"
proof -
  have ns: "\<forall>x\<in>set c. \<not> isSpace x" using assms(2) clock_char_not_space by (auto simp add: list_all_iff)
  have "hd c \<in> set c" "last c \<in> set c" using assms(1) by simp_all
  then have t: "trim c = c" using ns assms(1) by (intro trim_id) auto
  have u: "toUpperCase c = c"
    using assms(2) clock_char_upper by (auto simp add: toUpperCase_def list_all_iff map_idI)
  have "removeSpaces c = c" using ns by (simp add: removeSpaces_def)
  then show ?thesis by (simp add: t u)
qed

lemma takeWhile_all_digits: "list_all isDigit c \<Longrightarrow> takeWhile isDigit c = c \<and> dropWhile isDigit c = []"
  by (simp add: list_all_iff)

lemma colon_in_H_MM: "clock_H_MM c \<Longrightarrow> CHR '':'' \<in> set c"
proof -
  assume "clock_H_MM c"
  then have f: "length (dropWhile isDigit c) = 3" "hd (dropWhile isDigit c) = CHR '':''"
    by (simp_all add: clock_H_MM_def Let_def)
  then have "dropWhile isDigit c \<noteq> []" by (metis list.size(3) zero_neq_numeral)
  then have "CHR '':'' \<in> set (dropWhile isDigit c)" using f(2) hd_in_set by metis
  then show ?thesis using set_dropWhileD by metis
qed

lemma bearingFromClock_valid:
  assumes "valid_clock c"
  shows "\<exists>b. bearingFromClock c = Inr b"
proof -
  have n: "removeSpaces (toUpperCase (trim c)) = c"
    using valid_clock_chars [OF assms] clock_normal by simp
  have "CHR '':'' \<in> set c \<or> digits_1_4 c \<or> decimal_re c"
    using assms colon_in_H_MM
    by (auto simp add: valid_clock_def clock_H_def clock_HMM_def digits_1_4_def
          clock_decimal_def decimal_re_def opt_fraction_def Let_def)
  then show ?thesis
    by (auto simp add: bearingFromClock_def n Let_def)
qed

lemma isClockish_valid:
  assumes "valid_clock c"
  shows "isClockish c"
proof -
  consider (d) "1 \<le> length c" "length c \<le> 4" "list_all isDigit c"
    | (hm) "clock_H_MM c" | (dec) "clock_decimal c"
    using assms by (auto simp add: valid_clock_def clock_H_def clock_HMM_def)
  then show ?thesis
  proof cases
    case d
    have tw: "takeWhile isDigit c = c" "dropWhile isDigit c = []"
      using takeWhile_all_digits [OF d(3)] by blast+
    show ?thesis
      unfolding isClockish_def clockish_re_def opt_fraction_def tw using d by simp
  next
    case hm
    then show ?thesis using colon_in_H_MM by (simp add: isClockish_def)
  next
    case dec
    then show ?thesis
      by (simp add: isClockish_def clockish_re_def opt_fraction_def clock_decimal_def Let_def)
  qed
qed

lemma not_letter_self:
  "isDigit x \<or> isSpace x \<or> x \<in> set '':&@.'' \<Longrightarrow>
   toUpperChar x = x \<and> x \<notin> set ''ABCDEFGHIJKLMNOPQRSTUVWXY''"
  unfolding isSpace_def isDigit_def
  by (simp only: list.set insert_iff empty_iff, elim disjE; simp add: toUpperChar_def)

lemma letterish_facts:
  assumes "letterish x"
  shows "\<not> isSpace x" "\<not> isDigit x" "x \<noteq> CHR '':''" "x \<noteq> CHR ''&''" "x \<noteq> CHR ''z''"
proof -
  show "\<not> isSpace x" using assms not_letter_self [of x] unfolding letterish_def by metis
  show "\<not> isDigit x" using assms not_letter_self [of x] unfolding letterish_def by metis
  show "x \<noteq> CHR '':''"
  proof
    assume "x = CHR '':''"
    then have "x \<in> set '':&@.''" by simp
    then show False using assms not_letter_self [of x] unfolding letterish_def by metis
  qed
  show "x \<noteq> CHR ''&''"
  proof
    assume "x = CHR ''&''"
    then have "x \<in> set '':&@.''" by simp
    then show False using assms not_letter_self [of x] unfolding letterish_def by metis
  qed
  show "x \<noteq> CHR ''z''"
    using assms by (auto simp add: letterish_def toUpperChar_def)
qed

lemma valid_ring_letterish: "valid_ring r \<Longrightarrow> r \<noteq> [] \<and> (\<forall>x\<in>set r. letterish x)"
proof -
  assume v: "valid_ring r"
  show ?thesis
  proof (cases "toUpperCase r = ''ESPLANADE''")
    case True
    then have ne: "r \<noteq> []" by (auto simp add: toUpperCase_def)
    have "\<forall>x\<in>set r. toUpperChar x \<in> set ''ESPLANADE''"
      using True unfolding toUpperCase_def by (metis image_eqI list.set_map)
    then have "\<forall>x\<in>set r. letterish x" unfolding letterish_def by auto
    then show ?thesis using ne by simp
  next
    case False
    then have l: "length r = 1" "toUpperChar (hd r) \<in> set ring_order"
      using v by (auto simp add: valid_ring_def)
    then obtain x where r: "r = [x]" by (cases r) auto
    then have "letterish x" using l(2) by (auto simp add: letterish_def ring_order_def)
    then show ?thesis using r by simp
  qed
qed

lemma ring_not_clockish: "valid_ring r \<Longrightarrow> \<not> isClockish r"
proof -
  assume v: "valid_ring r"
  from valid_ring_letterish [OF v] obtain x t where r: "r = x # t" and l: "\<forall>y\<in>set r. letterish y"
    by (cases r) auto
  have "\<not> isDigit x" using l r letterish_facts(2) by simp
  then have "takeWhile isDigit r = []" using r by simp
  moreover have "CHR '':'' \<notin> set r" using l letterish_facts(3) by blast
  ultimately show ?thesis by (simp add: isClockish_def clockish_re_def)
qed

lemma ring_trim: "valid_ring r \<Longrightarrow> trim r = r"
proof -
  assume v: "valid_ring r"
  from valid_ring_letterish [OF v] have ne: "r \<noteq> []" and l: "\<forall>y\<in>set r. letterish y" by auto
  have "hd r \<in> set r" "last r \<in> set r" using ne by simp_all
  then show ?thesis using l letterish_facts(1) ne by (intro trim_id) auto
qed

lemma ring_letter_radius:
  "X \<in> set ''ABCDEFGHIJK'' \<Longrightarrow> \<exists>rf. (let idx = indexOf ring_order [X]
      in if idx < 0 then Inl (UnknownRing name)
         else Inr (foldl
                     (\<lambda>r i. r + BLOCK (ring_order ! i) +
                        (if i = nat idx then WIDTH (ring_order ! i) / 2 else WIDTH (ring_order ! i)))
                     (ESPL_RADIUS_FT + WIDTH_Esplanade / 2) [0..<Suc (nat idx)])) = Inr (rf::real)"
  by (simp only: list.set insert_iff empty_iff, elim disjE; simp add: indexOf_def ring_order_def)

lemma radiusFeetForRing_valid:
  assumes "valid_ring r"
  shows "\<exists>rf. radiusFeetForRing r = Inr rf"
proof (cases "toUpperCase r = ''ESPLANADE''")
  case True
  then show ?thesis by (simp add: radiusFeetForRing_def ring_trim [OF assms])
next
  case False
  then have l: "length r = 1" "toUpperChar (hd r) \<in> set ring_order"
    using assms by (auto simp add: valid_ring_def)
  then obtain x where r: "r = [x]" by (cases r) auto
  have X: "toUpperChar x \<in> set ''ABCDEFGHIJK''" using l(2) r by (simp add: ring_order_def)
  have u: "toUpperCase r = [toUpperChar x]" using r by (simp add: toUpperCase_def)
  show ?thesis
    using ring_letter_radius [OF X, of r]
    by (simp add: radiusFeetForRing_def ring_trim [OF assms] u)
qed

section \<open>The geocoder: intersections\<close>

lemma project_ok:
  "radiusFeetForRing r = Inr rf \<Longrightarrow> bearingFromClock c = Inr b \<Longrightarrow>
   project r c = Inr (destPoint MAN_lat MAN_lon (rf * FT2M) b)"
  by (simp add: project_def bind_err_def)

lemma not_space_amp_z: "\<not> isSpace CHR ''&''" "\<not> isSpace CHR ''z''"
  by (simp_all add: isSpace_def)

lemma split_two:
  assumes "CHR ''&'' \<notin> set a" "CHR ''&'' \<notin> set b"
  shows "js_split CHR ''&'' (a @ ''&'' @ b) = [a, b]"
  using split_one_sep [OF assms(1), of b] split_no_sep [OF assms(2)] by simp

lemma coordOf_tokens:
  assumes pads: "list_all isSpace p1" "list_all isSpace p2" "list_all isSpace p3"
      "list_all isSpace p4"
    and a: "token a" and b: "token b"
  shows "coordOf (p1 @ a @ p2 @ ''&'' @ p3 @ b @ p4) =
     (if isClockish a \<and> \<not> isClockish b then project b a
      else if isClockish b \<and> \<not> isClockish a then project a b
      else if espl_re a \<and> isClockish b then project a b
      else if espl_re b \<and> isClockish a then project b a
      else Inl (AmbiguousLocation (p1 @ a @ p2 @ ''&'' @ p3 @ b @ p4)))"
proof -
  let ?l = "p1 @ a @ p2" and ?r = "p3 @ b @ p4"
  let ?s = "p1 @ a @ p2 @ ''&'' @ p3 @ b @ p4"
  have sp: "\<forall>x\<in>set (p1 @ p2 @ p3 @ p4). x \<noteq> CHR ''&'' \<and> x \<noteq> CHR ''z''"
    using pads not_space_amp_z by (auto simp add: list_all_iff)
  have l: "CHR ''&'' \<notin> set ?l" and r: "CHR ''&'' \<notin> set ?r"
    using sp a b by (auto simp add: token_def)
  have z: "CHR ''z'' \<notin> set ?s"
    using sp a b by (auto simp add: token_def)
  have s: "?s = ?l @ ''&'' @ ?r" by simp
  have parts: "map trim (js_split CHR ''&'' ?s) = [a, b]"
    unfolding s split_two [OF l r]
    using trim_pad [of p1 p2 a] trim_pad [of p3 p4 b] pads a b by (simp add: token_def)
  have amp: "str_includes ''&'' ?s" by (simp add: includes_char)
  have "coordOf ?s = coordOf_portal ?s"
    using no_z_no_Plaza [OF z] by (simp only: coordOf_def if_False)
  also have "\<dots> = coordOf_intersection ?s"
    using amp by (simp only: coordOf_portal_def simp_thms if_False)
  also have "\<dots> =
     (if isClockish a \<and> \<not> isClockish b then project b a
      else if isClockish b \<and> \<not> isClockish a then project a b
      else if espl_re a \<and> isClockish b then project a b
      else if espl_re b \<and> isClockish a then project b a
      else Inl (AmbiguousLocation ?s))"
    using a b unfolding coordOf_intersection_def parts by (simp add: token_def)
  finally show ?thesis .
qed

lemma clock_token: "valid_clock c \<Longrightarrow> token c"
proof -
  assume "valid_clock c"
  from valid_clock_chars [OF this]
  have c: "c \<noteq> []" "list_all clock_char c" "isDigit (hd c)" "isDigit (last c)" by auto
  have "\<forall>x\<in>set c. x \<noteq> CHR ''&'' \<and> x \<noteq> CHR ''z''"
    using c(2) clock_char_other by (auto simp add: list_all_iff)
  then show ?thesis using c digit_not_space by (auto simp add: token_def)
qed

lemma ring_token: "valid_ring r \<Longrightarrow> token r"
proof -
  assume "valid_ring r"
  from valid_ring_letterish [OF this] have ne: "r \<noteq> []" and l: "\<forall>y\<in>set r. letterish y" by auto
  have "hd r \<in> set r" "last r \<in> set r" using ne by simp_all
  then have "\<not> isSpace (hd r)" "\<not> isSpace (last r)" using l letterish_facts(1) by blast+
  moreover have "\<forall>x\<in>set r. x \<noteq> CHR ''&'' \<and> x \<noteq> CHR ''z''"
    using l letterish_facts(4,5) by blast
  ultimately show ?thesis using ne by (auto simp add: token_def)
qed

text \<open>
  C1. For every valid clock string \<open>c\<close> and every valid ring name \<open>r\<close>, \<open>coordOf\<close> applied
  to \<open>c\<close> and \<open>r\<close> joined by \<open>&\<close> (with any white space around the two tokens), in either
  order, returns the point that \<open>destPoint\<close> projects from the Man at the radius of \<open>r\<close>
  and the bearing of \<open>c\<close>; neither \<open>radiusFeetForRing r\<close> nor \<open>bearingFromClock c\<close> throws.
\<close>

theorem coordOf_intersection_correct:
  assumes "valid_clock c" and "valid_ring r"
    and "list_all isSpace p1" and "list_all isSpace p2"
    and "list_all isSpace p3" and "list_all isSpace p4"
  shows "\<exists>rf b. radiusFeetForRing r = Inr rf \<and> bearingFromClock c = Inr b \<and>
     coordOf (p1 @ c @ p2 @ ''&'' @ p3 @ r @ p4) = Inr (destPoint MAN_lat MAN_lon (rf * FT2M) b) \<and>
     coordOf (p1 @ r @ p2 @ ''&'' @ p3 @ c @ p4) = Inr (destPoint MAN_lat MAN_lon (rf * FT2M) b)"
proof -
  obtain rf where rf: "radiusFeetForRing r = Inr rf"
    using radiusFeetForRing_valid [OF assms(2)] by blast
  obtain b where b: "bearingFromClock c = Inr b"
    using bearingFromClock_valid [OF assms(1)] by blast
  have ck: "isClockish c" "\<not> isClockish r"
    using isClockish_valid [OF assms(1)] ring_not_clockish [OF assms(2)] by simp_all
  have 1: "coordOf (p1 @ c @ p2 @ ''&'' @ p3 @ r @ p4) = project r c"
    using coordOf_tokens [OF assms(3-6) clock_token [OF assms(1)] ring_token [OF assms(2)]] ck
    by simp
  have 2: "coordOf (p1 @ r @ p2 @ ''&'' @ p3 @ c @ p4) = project r c"
    using coordOf_tokens [OF assms(3-6) ring_token [OF assms(2)] clock_token [OF assms(1)]] ck
    by simp
  show ?thesis using rf b 1 2 project_ok [OF rf b] by simp
qed

lemma radius_D: "radiusFeetForRing ''D'' = Inr 3775"
  by code_simp

lemma bearing_600: "bearingFromClock ''6:00'' = Inr (Num 225)"
  by (simp add: bearingFromClock_def trim_def isSpace_def toUpperCase_def toUpperChar_def
        removeSpaces_def parseInt_def isDigit_def parseDigits_def digitVal_def orDefault_def
        clockBearing_def js_mod_def CITY_ROTATION_DEG_def)

theorem coordOf_intersection_correct_witness:
  "valid_clock ''6:00'' \<and> valid_ring ''D'' \<and>
   coordOf ''6:00 & D'' = Inr (destPoint MAN_lat MAN_lon (3775 * FT2M) (Num 225)) \<and>
   coordOf ''D & 6:00'' = Inr (destPoint MAN_lat MAN_lon (3775 * FT2M) (Num 225))"
proof -
  have c: "valid_clock ''6:00''"
    by (simp add: valid_clock_def clock_H_MM_def clock_H_def isDigit_def)
  have r: "valid_ring ''D''"
    by (simp add: valid_ring_def toUpperChar_def ring_order_def)
  have s: "list_all isSpace []" "list_all isSpace '' ''" by (simp_all add: isSpace_def)
  from coordOf_intersection_correct [OF c r s(1) s(2) s(2) s(1)]
  show ?thesis using c r by (simp add: radius_D bearing_600)
qed

section \<open>The geocoder: portals\<close>

lemma wsThen_pad:
  assumes "ws \<noteq> []" "list_all isSpace ws"
  shows "wsThen ''Portal'' (ws @ ''Portal'')"
proof -
  have P: "\<not> isSpace (hd ''Portal'')" by (simp add: isSpace_def)
  have "dropWhile isSpace (ws @ ''Portal'') = ''Portal''"
    using dropWhile_pad [OF assms(2), of "''Portal''"] P by simp
  moreover have "isSpace (hd (ws @ ''Portal''))"
    using assms by (cases ws) simp_all
  ultimately show ?thesis using assms(1) by (simp add: wsThen_def)
qed

lemma clock_H_shape:
  assumes "clock_H c"
  shows "\<exists>d. isDigit d \<and> (c = [d] \<or> (\<exists>e. isDigit e \<and> c = [d, e]))"
proof -
  from assms have l: "1 \<le> length c" "length c \<le> 2" and d: "list_all isDigit c"
    by (simp_all add: clock_H_def)
  from l obtain x t where c: "c = x # t" "length t \<le> 1" by (cases c) auto
  show ?thesis
  proof (cases t)
    case Nil
    then show ?thesis using c d by auto
  next
    case (Cons y u)
    then have "u = []" using c(2) by simp
    then show ?thesis using c d Cons by auto
  qed
qed

lemma clock_H_MM_shape:
  assumes "clock_H_MM c"
  shows "\<exists>h m1 m2. c = h @ [CHR '':'', m1, m2] \<and> isDigit m1 \<and> isDigit m2 \<and> clock_H h"
proof -
  define h where "h = takeWhile isDigit c"
  define r where "r = dropWhile isDigit c"
  have c: "c = h @ r" by (simp add: h_def r_def)
  from assms have f: "1 \<le> length h" "length h \<le> 2" "length r = 3" "hd r = CHR '':''"
    "list_all isDigit (tl r)"
    by (simp_all add: clock_H_MM_def Let_def h_def r_def)
  have hd: "list_all isDigit h" unfolding h_def list_all_iff by (auto dest: set_takeWhileD)
  from f(3) obtain a m1 m2 where r: "r = [a, m1, m2]"
    by (cases r; cases "tl r"; cases "tl (tl r)") auto
  then have "a = CHR '':''" "isDigit m1" "isDigit m2" using f(4,5) by simp_all
  then show ?thesis using c r f(1,2) hd by (auto simp add: clock_H_def)
qed

lemma not_digit_colon_space: "\<not> isDigit CHR '':''" "isSpace w \<Longrightarrow> \<not> isDigit w"
  "isSpace w \<Longrightarrow> w \<noteq> CHR '':''"
  using digit_not_space by (auto simp add: isDigit_def isSpace_def)

lemma portalAt_H:
  assumes "clock_H c" "ws \<noteq> []" "list_all isSpace ws"
  shows "portalAt (c @ ws @ ''Portal'') = Some c"
proof -
  obtain w ws' where ws: "ws = w # ws'" "isSpace w" using assms(2,3) by (cases ws) auto
  have W: "wsThen ''Portal'' (w # ws' @ ''Portal'')"
    using wsThen_pad [OF assms(2,3)] ws by simp
  from clock_H_shape [OF assms(1)] obtain d where d: "isDigit d"
    and c: "c = [d] \<or> (\<exists>e. isDigit e \<and> c = [d, e])" by blast
  from c show ?thesis
  proof
    assume "c = [d]"
    then show ?thesis
      using d ws W not_digit_colon_space(2,3) [OF ws(2)] by (simp add: portalAt_def Let_def)
  next
    assume "\<exists>e. isDigit e \<and> c = [d, e]"
    then obtain e where "isDigit e" "c = [d, e]" by blast
    then show ?thesis
      using d ws W not_digit_colon_space(2,3) [OF ws(2)] by (simp add: portalAt_def Let_def)
  qed
qed

lemma portalAt_H_MM:
  assumes "clock_H_MM c" "ws \<noteq> []" "list_all isSpace ws"
  shows "portalAt (c @ ws @ ''Portal'') = Some c"
proof -
  have W: "wsThen ''Portal'' (ws @ ''Portal'')" by (rule wsThen_pad [OF assms(2,3)])
  from clock_H_MM_shape [OF assms(1)] obtain h m1 m2 where
    c: "c = h @ [CHR '':'', m1, m2]" and m: "isDigit m1" "isDigit m2" and h: "clock_H h" by blast
  from clock_H_shape [OF h] obtain d where d: "isDigit d"
    and hh: "h = [d] \<or> (\<exists>e. isDigit e \<and> h = [d, e])" by blast
  from hh show ?thesis
  proof
    assume "h = [d]"
    then show ?thesis
      using d c m W not_digit_colon_space(1) by (simp add: portalAt_def Let_def)
  next
    assume "\<exists>e. isDigit e \<and> h = [d, e]"
    then obtain e where "isDigit e" "h = [d, e]" by blast
    then show ?thesis
      using d c m W not_digit_colon_space(1) by (simp add: portalAt_def Let_def)
  qed
qed

lemma radius_ESPLANADE: "radiusFeetForRing ''ESPLANADE'' = Inr ESPL_RADIUS_FT"
  by (simp add: radiusFeetForRing_def trim_def isSpace_def toUpperCase_def toUpperChar_def)

lemma Portal_chars: "CHR ''z'' \<notin> set ''Portal''" "CHR ''&'' \<notin> set ''Portal''"
  by simp_all

text \<open>
  C8, amended. For every clock \<open>c\<close> of the form \<open>H\<close> or \<open>H:MM\<close> (one or two hour digits)
  and every non-empty run of white space \<open>ws\<close>, \<open>coordOf\<close> applied to \<open>c\<close>, \<open>ws\<close> and the
  word Portal returns the point at the Esplanade radius with the bearing of \<open>c\<close>.
\<close>

theorem coordOf_portal_correct:
  assumes "clock_H c \<or> clock_H_MM c" and "ws \<noteq> []" and "list_all isSpace ws"
  shows "\<exists>b. bearingFromClock c = Inr b \<and>
     coordOf (c @ ws @ ''Portal'') =
       Inr (destPoint MAN_lat MAN_lon (ESPL_RADIUS_FT * FT2M) b)"
proof -
  let ?s = "c @ ws @ ''Portal''"
  have v: "valid_clock c" using assms(1) by (auto simp add: valid_clock_def)
  obtain b where b: "bearingFromClock c = Inr b" using bearingFromClock_valid [OF v] by blast
  have t: "token c" by (rule clock_token [OF v])
  have wz: "\<forall>x\<in>set ws. x \<noteq> CHR ''&'' \<and> x \<noteq> CHR ''z''"
    using assms(3) not_space_amp_z by (auto simp add: list_all_iff)
  have z: "CHR ''z'' \<notin> set ?s" and a: "CHR ''&'' \<notin> set ?s"
    using t wz by (auto simp add: token_def)
  have inc: "str_includes ''Portal'' ?s"
    using includes_append [of "''Portal''" "c @ ws" "[]"] by simp
  have amp: "\<not> str_includes ''&'' ?s" using a by (simp add: includes_char)
  have at: "portalAt ?s = Some c"
    using assms portalAt_H portalAt_H_MM by blast
  have ne: "?s \<noteq> []" by simp
  then obtain x xs where s: "?s = x # xs" by (cases ?s) auto
  have pm: "portalMatch ?s = Some c"
    using at unfolding s by simp
  have "coordOf ?s = coordOf_portal ?s"
    using no_z_no_Plaza [OF z] by (simp only: coordOf_def if_False)
  also have "\<dots> = project ''ESPLANADE'' c"
    using inc amp pm by (simp only: coordOf_portal_def simp_thms if_True option.case)
  also have "\<dots> = Inr (destPoint MAN_lat MAN_lon (ESPL_RADIUS_FT * FT2M) b)"
    by (rule project_ok [OF radius_ESPLANADE b])
  finally show ?thesis using b by simp
qed

theorem coordOf_portal_correct_witness:
  "(clock_H ''6:00'' \<or> clock_H_MM ''6:00'') \<and> '' '' \<noteq> [] \<and> list_all isSpace '' '' \<and>
   bearingFromClock ''6:00'' = Inr (Num 225) \<and>
   coordOf ''6:00 Portal'' = Inr (destPoint MAN_lat MAN_lon (ESPL_RADIUS_FT * FT2M) (Num 225))"
proof -
  have c: "clock_H ''6:00'' \<or> clock_H_MM ''6:00''"
    by (simp add: clock_H_MM_def clock_H_def isDigit_def)
  have s: "'' '' \<noteq> []" "list_all isSpace '' ''" by (simp_all add: isSpace_def)
  from coordOf_portal_correct [OF c s]
  show ?thesis using c s by (simp add: bearing_600)
qed

lemma lagrange_identity:
  fixes a b c e k :: real
  shows "(a * c + b * e * k)\<^sup>2 + (a * (e * k) - b * c)\<^sup>2 =
         (a\<^sup>2 + b\<^sup>2) * (c\<^sup>2 + (e * k)\<^sup>2)"
  by (simp add: power2_eq_square algebra_simps)

lemma sin_phi2_bound:
  fixes p d k :: real
  assumes "\<bar>k\<bar> \<le> 1"
  shows "\<bar>sin p * cos d + cos p * sin d * k\<bar> \<le> 1"
proof -
  let ?x = "sin p * cos d + cos p * sin d * k"
  have id: "?x\<^sup>2 + (sin p * (sin d * k) - cos p * cos d)\<^sup>2 =
        ((sin p)\<^sup>2 + (cos p)\<^sup>2) * ((cos d)\<^sup>2 + (sin d * k)\<^sup>2)"
    by (rule lagrange_identity)
  have k2: "k\<^sup>2 \<le> 1" using assms by (simp add: abs_square_le_1)
  have "(sin d * k)\<^sup>2 = (sin d)\<^sup>2 * k\<^sup>2" by (simp add: power_mult_distrib)
  also have "\<dots> \<le> (sin d)\<^sup>2 * 1" by (rule mult_left_mono [OF k2]) simp
  finally have sk: "(sin d * k)\<^sup>2 \<le> (sin d)\<^sup>2" by simp
  have "(sin d)\<^sup>2 + (cos d)\<^sup>2 = 1" by (rule sin_cos_squared_add)
  with sk have "(cos d)\<^sup>2 + (sin d * k)\<^sup>2 \<le> 1" by linarith
  moreover have "(sin p)\<^sup>2 + (cos p)\<^sup>2 = 1" by (rule sin_cos_squared_add)
  ultimately have "?x\<^sup>2 + (sin p * (sin d * k) - cos p * cos d)\<^sup>2 \<le> 1"
    unfolding id by simp
  moreover have "0 \<le> (sin p * (sin d * k) - cos p * cos d)\<^sup>2" by simp
  ultimately have "?x\<^sup>2 \<le> 1" by linarith
  then show ?thesis by (simp add: abs_square_le_1)
qed

lemma destPoint_bearing_differs:
  fixes b1 b2 :: real
  assumes c: "cos (b1 * pi / 180) \<noteq> cos (b2 * pi / 180)"
    and p: "0 < cos (lat0 * pi / 180)" and d: "0 < sin (dm / R_earth)"
  shows "destPoint lat0 lon0 dm (Num b1) \<noteq> destPoint lat0 lon0 dm (Num b2)"
proof
  let ?p = "lat0 * pi / 180" and ?d = "dm / R_earth"
  let ?x = "\<lambda>b::real. sin ?p * cos ?d + cos ?p * sin ?d * cos (b * pi / 180)"
  assume "destPoint lat0 lon0 dm (Num b1) = destPoint lat0 lon0 dm (Num b2)"
  then have "lat (destPoint lat0 lon0 dm (Num b1)) = lat (destPoint lat0 lon0 dm (Num b2))"
    by simp
  then have "arcsin (?x b1) * 180 / pi = arcsin (?x b2) * 180 / pi"
    by (simp add: destPoint_def Let_def)
  then have "arcsin (?x b1) = arcsin (?x b2)" by simp
  moreover have "\<bar>?x b1\<bar> \<le> 1" "\<bar>?x b2\<bar> \<le> 1"
    by (rule sin_phi2_bound, simp)+
  ultimately have "?x b1 = ?x b2" by (simp add: arcsin_eq_iff)
  then have "cos ?p * sin ?d * (cos (b1 * pi / 180) - cos (b2 * pi / 180)) = 0"
    by (simp add: algebra_simps)
  then show False using c p d by simp
qed

lemma cos_225: "cos (225 * pi / 180) < 0"
proof -
  have "225 * pi / 180 = pi / 4 + pi" by simp
  then have "cos (225 * pi / 180) = - cos (pi / 4)" by (simp only: cos_periodic_pi)
  then show ?thesis by (simp add: cos_45)
qed

lemma cos_270: "cos (270 * pi / 180) = 0"
proof -
  have "270 * pi / 180 = 3 / 2 * pi" by simp
  then show ?thesis by (simp only: cos_3over2_pi)
qed

lemma MAN_cos_pos: "0 < cos (MAN_lat * pi / 180)"
proof (rule cos_gt_zero_pi)
  show "- (pi / 2) < MAN_lat * pi / 180"
    using pi_gt_zero by (simp add: MAN_lat_def)
  have "MAN_lat * pi / 180 = (40.786958 / 180) * pi" by (simp add: MAN_lat_def)
  also have "\<dots> < (1 / 2) * pi" by (rule mult_strict_right_mono) (simp_all)
  finally show "MAN_lat * pi / 180 < pi / 2" by simp
qed

lemma ESPL_sin_pos: "0 < sin (ESPL_RADIUS_FT * FT2M / R_earth)"
proof (rule sin_gt_zero)
  show "0 < ESPL_RADIUS_FT * FT2M / R_earth"
    by (simp add: ESPL_RADIUS_FT_def FT2M_def R_earth_def)
  have "ESPL_RADIUS_FT * FT2M / R_earth < 2"
    by (simp add: ESPL_RADIUS_FT_def FT2M_def R_earth_def)
  then show "ESPL_RADIUS_FT * FT2M / R_earth < pi" using pi_ge_two by linarith
qed

lemma bearing_730: "bearingFromClock ''730'' = Inr (Num 270)"
  by (simp add: bearingFromClock_def trim_def isSpace_def toUpperCase_def toUpperChar_def
        removeSpaces_def digits_1_4_def isDigit_def parseDigits_def digitVal_def
        clockBearing_def js_mod_def CITY_ROTATION_DEG_def)

lemma bearing_30: "bearingFromClock ''30'' = Inr (Num 225)"
  by (simp add: bearingFromClock_def trim_def isSpace_def toUpperCase_def toUpperChar_def
        removeSpaces_def digits_1_4_def isDigit_def parseDigits_def digitVal_def
        clockBearing_def js_mod_def CITY_ROTATION_DEG_def)

lemma coordOf_730_Portal: "coordOf ''730 Portal'' = project ''ESPLANADE'' ''30''"
  by (simp add: coordOf_def coordOf_portal_def portalAt_def wsThen_def isDigit_def isSpace_def)

text \<open>
  C8, as stated, fails on the \<open>HMM\<close> form: \<open>730\<close> is the clock 7:30 with bearing 270, but
  in \<open>730 Portal\<close> the portal pattern captures only \<open>30\<close>, so \<open>coordOf\<close> returns the point
  at bearing 225.
\<close>

theorem coordOf_portal_HMM_counterexample:
  "valid_clock ''730'' \<and> \<not> str_includes ''&'' ''730 Portal'' \<and>
   bearingFromClock ''730'' = Inr (Num 270) \<and>
   coordOf ''730 Portal'' = Inr (destPoint MAN_lat MAN_lon (ESPL_RADIUS_FT * FT2M) (Num 225)) \<and>
   coordOf ''730 Portal'' \<noteq> Inr (destPoint MAN_lat MAN_lon (ESPL_RADIUS_FT * FT2M) (Num 270))"
proof -
  have v: "valid_clock ''730''"
    by (simp add: valid_clock_def clock_HMM_def isDigit_def)
  have a: "\<not> str_includes ''&'' ''730 Portal''" by simp
  have c: "coordOf ''730 Portal'' =
      Inr (destPoint MAN_lat MAN_lon (ESPL_RADIUS_FT * FT2M) (Num 225))"
    unfolding coordOf_730_Portal by (rule project_ok [OF radius_ESPLANADE bearing_30])
  have "cos (225 * pi / 180) \<noteq> cos (270 * pi / 180)" using cos_225 cos_270 by simp
  from destPoint_bearing_differs [OF this MAN_cos_pos ESPL_sin_pos]
  show ?thesis using v a c bearing_730 by simp
qed

section \<open>The event processor: time window and status\<close>

lemma passes_valid:
  "passesTimeFilter (Some s) (Some e) (Some n) (Some c) st \<longleftrightarrow>
     (s \<le> n \<and> n \<le> e \<and> 900000 \<le> e - n) \<or> (n < s \<and> s \<le> c)"
  by (simp add: passesTimeFilter_def num_le_def num_lt_def num_sub_def buffer_def)

lemma passes_not_ENDED:
  "passesTimeFilter start end' now cutoff st \<Longrightarrow> determineEventStatus start end' now \<noteq> ENDED"
  by (auto simp add: passesTimeFilter_def determineEventStatus_def Let_def)

lemma processOccurrence_dropped:
  "start_time occ \<noteq> [] \<Longrightarrow> end_time occ \<noteq> [] \<Longrightarrow>
   \<not> passesTimeFilter (dateParse env (start_time occ)) (dateParse env (end_time occ)) (l_now L)
        (l_upcomingCutoff L)
        (determineEventStatus (dateParse env (start_time occ)) (dateParse env (end_time occ))
           (l_now L)) \<Longrightarrow>
   processOccurrence env L event occ k = Inr (None, k)"
  by (simp add: processOccurrence_def Let_def)

lemma processOccurrence_emitted:
  assumes "processOccurrence env L event occ k = Inr (Some pe, k')"
  shows "start_time occ \<noteq> [] \<and> end_time occ \<noteq> [] \<and>
     passesTimeFilter (dateParse env (start_time occ)) (dateParse env (end_time occ)) (l_now L)
        (l_upcomingCutoff L)
        (determineEventStatus (dateParse env (start_time occ)) (dateParse env (end_time occ))
           (l_now L)) \<and>
     (\<exists>loc d fut. resolveEventLocation (l_artMap L) (l_campMap L) event = Inr loc \<and>
        pe = createProcessedEvent event occ (dateParse env (start_time occ))
               (dateParse env (end_time occ))
               (determineEventStatus (dateParse env (start_time occ))
                  (dateParse env (end_time occ)) (l_now L))
               d loc fut)"
proof -
  have ne: "start_time occ \<noteq> [] \<and> end_time occ \<noteq> []"
    using assms by (auto simp add: processOccurrence_def split: if_splits)
  let ?start = "dateParse env (start_time occ)" and ?end = "dateParse env (end_time occ)"
  let ?st = "determineEventStatus ?start ?end (l_now L)"
  have p: "passesTimeFilter ?start ?end (l_now L) (l_upcomingCutoff L) ?st"
    using assms ne processOccurrence_dropped [of occ env L event k] by fastforce
  obtain loc where loc: "resolveEventLocation (l_artMap L) (l_campMap L) event = Inr loc"
    using assms ne p
    by (cases "resolveEventLocation (l_artMap L) (l_campMap L) event")
       (simp_all add: processOccurrence_def Let_def bind_err_def)
  have "\<exists>d fut. pe = createProcessedEvent event occ ?start ?end ?st d loc fut"
    using assms ne p loc
    by (simp add: processOccurrence_def Let_def bind_err_def split: if_splits) blast+
  then show ?thesis using ne p loc by blast
qed

lemma status_createProcessedEvent [simp]:
  "status (createProcessedEvent event occ start end' st d loc fut) = st"
  by (simp add: createProcessedEvent_def)

lemma occurrenceLoop_invariant:
  assumes step: "\<And>occ k pe k'. processOccurrence env L event occ k = Inr (Some pe, k') \<Longrightarrow> P pe"
  shows "occurrenceLoop env L event occs acc = Inr acc' \<Longrightarrow> \<forall>pe\<in>set (fst acc). P pe
         \<Longrightarrow> \<forall>pe\<in>set (fst acc'). P pe"
proof (induction occs arbitrary: acc)
  case Nil
  then show ?case by simp
next
  case (Cons occ occs)
  from Cons.prems(1) obtain r where
    r: "processOccurrence env L event occ (snd acc) = Inr r" and
    rest: "occurrenceLoop env L event occs
             (case fst r of None \<Rightarrow> fst acc | Some pe \<Rightarrow> fst acc @ [pe], snd r) = Inr acc'"
    by (auto simp add: bind_err_def split: sum.splits)
  have "\<forall>pe\<in>set (case fst r of None \<Rightarrow> fst acc | Some pe \<Rightarrow> fst acc @ [pe]). P pe"
  proof (cases "fst r")
    case None
    then show ?thesis using Cons.prems(2) by simp
  next
    case (Some pe)
    then have "processOccurrence env L event occ (snd acc) = Inr (Some pe, snd r)"
      using r by (cases r) simp
    then have "P pe" by (rule step)
    then show ?thesis using Some Cons.prems(2) by simp
  qed
  then show ?case using Cons.IH [OF rest] by simp
qed

lemma eventLoop_invariant:
  assumes step:
    "\<And>event occ k pe k'. processOccurrence env L event occ k = Inr (Some pe, k') \<Longrightarrow> P pe"
  shows "eventLoop env L events acc = Inr acc' \<Longrightarrow> \<forall>pe\<in>set (fst acc). P pe
         \<Longrightarrow> \<forall>pe\<in>set (fst acc'). P pe"
proof (induction events arbitrary: acc)
  case Nil
  then show ?case by simp
next
  case (Cons event events)
  from Cons.prems(1) obtain mid where
    m: "occurrenceLoop env L event (occurrence_set event) acc = Inr mid" and
    rest: "eventLoop env L events mid = Inr acc'"
    by (auto simp add: bind_err_def split: sum.splits)
  have "\<forall>pe\<in>set (fst mid). P pe"
    using occurrenceLoop_invariant [where P = P, OF step m Cons.prems(2)] by simp
  then show ?case using Cons.IH [OF rest] by simp
qed

lemma processEvents_invariant:
  assumes step:
    "\<And>L event occ k pe k'. processOccurrence env L event occ k = Inr (Some pe, k') \<Longrightarrow> P pe"
  assumes run: "processEvents env searchParams = Inr out"
  shows "\<forall>pe\<in>set out. P pe"
proof -
  from run obtain L events k0 acc' where
    loop: "eventLoop env L events ([], k0) = Inr acc'" and out: "out = fst acc'"
    by (auto simp add: processEvents_def Let_def bind_err_def split: sum.splits)
  have "\<forall>pe\<in>set (fst acc'). P pe"
    using eventLoop_invariant [where P = P, OF step loop] by simp
  then show ?thesis using out by simp
qed

text \<open>
  C10. Every record that \<open>processEvents\<close> returns has status NOW, SOON or UPCOMING, never
  ENDED: a record is only built for an occurrence that passed the time filter, and the
  condition of the time filter excludes the ENDED branch of the status function.
\<close>

theorem processEvents_never_ENDED:
  "processEvents env searchParams = Inr out \<Longrightarrow>
   \<forall>pe\<in>set out. status pe = NOW \<or> status pe = SOON \<or> status pe = UPCOMING"
proof (rule processEvents_invariant
    [where P = "\<lambda>pe. status pe = NOW \<or> status pe = SOON \<or> status pe = UPCOMING"])
  fix L event occ k pe k'
  assume "processOccurrence env L event occ k = Inr (Some pe, k')"
  from processOccurrence_emitted [OF this]
  have "status pe \<noteq> ENDED" using passes_not_ENDED by fastforce
  then show "status pe = NOW \<or> status pe = SOON \<or> status pe = UPCOMING"
    by (cases "status pe") simp_all
qed (assumption)

section \<open>The event processor: location resolution\<close>

lemma resolveEventLocation_total: "\<exists>loc. resolveEventLocation artMap campMap event = Inr loc"
  by (simp add: resolveEventLocation_def try_catch_def bind_err_def Let_def
           split: option.splits sum.splits)

lemma processOccurrence_total: "\<exists>r. processOccurrence env L event occ k = Inr r"
proof -
  obtain loc where "resolveEventLocation (l_artMap L) (l_campMap L) event = Inr loc"
    using resolveEventLocation_total by blast
  then show ?thesis by (simp add: processOccurrence_def Let_def bind_err_def)
qed

lemma occurrenceLoop_total: "\<exists>acc'. occurrenceLoop env L event occs acc = Inr acc'"
proof (induction occs arbitrary: acc)
  case Nil
  then show ?case by simp
next
  case (Cons occ occs)
  obtain r where "processOccurrence env L event occ (snd acc) = Inr r"
    using processOccurrence_total by blast
  then show ?case using Cons.IH by (simp add: bind_err_def)
qed

lemma eventLoop_total: "\<exists>acc'. eventLoop env L events acc = Inr acc'"
proof (induction events arbitrary: acc)
  case Nil
  then show ?case by simp
next
  case (Cons event events)
  obtain mid where "occurrenceLoop env L event (occurrence_set event) acc = Inr mid"
    using occurrenceLoop_total by blast
  then show ?case using Cons.IH by (simp add: bind_err_def)
qed

lemma processEvents_errors:
  assumes "processEvents env searchParams = Inl err"
  shows "loadEvents env (orDefault defaultYear (sp_year searchParams)) = Inl err \<or>
         getArtMap env = Inl err \<or> getCampMap env = Inl err \<or> getFavoriteIds env = Inl err"
proof (rule ccontr)
  assume n: "\<not> ?thesis"
  let ?y = "orDefault defaultYear (sp_year searchParams)"
  show False
  proof (cases "loadEvents env ?y")
    case (Inl e)
    then show False using assms n by (simp add: processEvents_def Let_def bind_err_def)
  next
    case ev: (Inr events)
    show False
    proof (cases "getArtMap env")
      case (Inl e)
      then show False using assms n ev by (simp add: processEvents_def Let_def bind_err_def)
    next
      case am: (Inr artMap)
      show False
      proof (cases "getCampMap env")
        case (Inl e)
        then show False
          using assms n ev am by (simp add: processEvents_def Let_def bind_err_def)
      next
        case cm: (Inr campMap)
        show False
        proof (cases "orDefault False (showOnlyFavorites searchParams)")
          case False
          obtain acc' where "eventLoop env
              (mkLocals env searchParams events artMap campMap None) events
              ([], case sp_now searchParams of None \<Rightarrow> Suc 0 | Some d \<Rightarrow> 0) = Inr acc'"
            using eventLoop_total by blast
          then show ?thesis
            using assms ev am cm False by (simp add: processEvents_def Let_def bind_err_def)
        next
          case True
          show ?thesis
          proof (cases "getFavoriteIds env")
            case (Inl e)
            then show ?thesis
              using assms n ev am cm True by (simp add: processEvents_def Let_def bind_err_def)
          next
            case (Inr ids)
            obtain acc' where "eventLoop env
                (mkLocals env searchParams events artMap campMap (Some ids)) events
                ([], case sp_now searchParams of None \<Rightarrow> Suc 0 | Some d \<Rightarrow> 0) = Inr acc'"
              using eventLoop_total by blast
            then show ?thesis
              using assms ev am cm True Inr
              by (simp add: processEvents_def Let_def bind_err_def)
          qed
        qed
      qed
    qed
  qed
qed

text \<open>
  C5, amended. Location resolution never fails. When the art step does not apply (no art
  installation is linked and found) and the parse of the linked camp's address throws, the
  result is the label of that address with no coordinates and source camp; when neither the
  art step nor the camp step applies (no camp with an address is linked and found) and the
  parse of \<open>other_location\<close> throws, the result is that string as a label with no
  coordinates and source other. \<open>processEvents\<close> fails only with a failure of one of its
  collaborators (the data and favorites services), never with an error of the address
  parser.
\<close>

theorem resolveEventLocation_catches_ParseError:
  "(\<exists>loc. resolveEventLocation artMap campMap event = Inr loc)
   \<and> (linkedArt artMap event = None \<and> linkedCampAddress campMap event = Some ls \<and>
        coordOf ls = Inl e \<longrightarrow>
        resolveEventLocation artMap campMap event =
          Inr \<lparr>loc_lat = None, loc_lon = None, loc_label = ''@ ['' @ ls @ '']'',
               loc_source = SourceCamp\<rparr>)
   \<and> (linkedArt artMap event = None \<and> linkedCampAddress campMap event = None \<and>
        other_location event = Some ol \<and> ol \<noteq> [] \<and> coordOf ol = Inl e \<longrightarrow>
        resolveEventLocation artMap campMap event =
          Inr \<lparr>loc_lat = None, loc_lon = None, loc_label = ol, loc_source = SourceOther\<rparr>)
   \<and> (\<forall>err. processEvents env searchParams = Inl err \<longrightarrow>
        loadEvents env (orDefault defaultYear (sp_year searchParams)) = Inl err \<or>
        getArtMap env = Inl err \<or> getCampMap env = Inl err \<or> getFavoriteIds env = Inl err)"
  using resolveEventLocation_total [of artMap campMap event] processEvents_errors [of env searchParams]
  by (simp add: resolveEventLocation_def try_catch_def bind_err_def truthy_str_def)

section \<open>Closed instances on the small data set\<close>

lemma coordOf_tent: "coordOf ''Behind the big tent'' = Inl (InvalidLocation ''Behind the big tent'')"
  by (simp add: coordOf_def coordOf_portal_def coordOf_intersection_def trim_def isSpace_def)

lemma coordOf_playa:
  "coordOf ''Far side of the playa'' = Inl (InvalidLocation ''Far side of the playa'')"
  by (simp add: coordOf_def coordOf_portal_def coordOf_intersection_def trim_def isSpace_def)

lemma tea_links:
  "linkedArt demoArtMap teaEvent = None"
  "linkedCampAddress demoCampMap teaEvent = Some ''Behind the big tent''"
  by (simp_all add: linkedArt_def linkedCampAddress_def teaEvent_def demoEvent_def
        truthy_str_def demoCampMap_def)

lemma yoga_links:
  "linkedArt demoArtMap yogaEvent = None"
  "linkedCampAddress demoCampMap yogaEvent = None"
  "other_location yogaEvent = Some ''Far side of the playa''"
  by (simp_all add: linkedArt_def linkedCampAddress_def yogaEvent_def demoEvent_def
        truthy_str_def)

lemma demo_loaders:
  "loadEvents (demoEnv events clock) y = Inr (filter (\<lambda>e. year e = y) events)"
  "getArtMap (demoEnv events clock) = Inr demoArtMap"
  "getCampMap (demoEnv events clock) = Inr demoCampMap"
  "getFavoriteIds (demoEnv events clock) = Inr {}"
  "dateParse (demoEnv events clock) = demoParse"
  "wallClock (demoEnv events clock) = clock"
  by (simp_all add: demoEnv_def)

theorem resolveEventLocation_catches_ParseError_witness:
  "resolveEventLocation demoArtMap demoCampMap teaEvent =
     Inr \<lparr>loc_lat = None, loc_lon = None, loc_label = ''@ [Behind the big tent]'',
          loc_source = SourceCamp\<rparr>
   \<and> resolveEventLocation demoArtMap demoCampMap yogaEvent =
     Inr \<lparr>loc_lat = None, loc_lon = None, loc_label = ''Far side of the playa'',
          loc_source = SourceOther\<rparr>
   \<and> (\<exists>out. processEvents (demoEnv [teaEvent, yogaEvent] (\<lambda>k. demoNow)) (demoParams None None)
               = Inr out)"
proof -
  note t = resolveEventLocation_catches_ParseError
    [of demoArtMap demoCampMap teaEvent "''Behind the big tent''"
        "InvalidLocation ''Behind the big tent''" "[]"
        "demoEnv [teaEvent, yogaEvent] (\<lambda>k. demoNow)" "demoParams None None"]
  note y = resolveEventLocation_catches_ParseError
    [of demoArtMap demoCampMap yogaEvent "[]"
        "InvalidLocation ''Far side of the playa''" "''Far side of the playa''"
        "demoEnv [teaEvent, yogaEvent] (\<lambda>k. demoNow)" "demoParams None None"]
  have 1: "resolveEventLocation demoArtMap demoCampMap teaEvent =
     Inr \<lparr>loc_lat = None, loc_lon = None, loc_label = ''@ [Behind the big tent]'',
          loc_source = SourceCamp\<rparr>"
    using t tea_links coordOf_tent by simp
  have 2: "resolveEventLocation demoArtMap demoCampMap yogaEvent =
     Inr \<lparr>loc_lat = None, loc_lon = None, loc_label = ''Far side of the playa'',
          loc_source = SourceOther\<rparr>"
    using y yoga_links coordOf_playa by simp
  have 3: "\<exists>out. processEvents (demoEnv [teaEvent, yogaEvent] (\<lambda>k. demoNow))
                   (demoParams None None) = Inr out"
  proof (cases "processEvents (demoEnv [teaEvent, yogaEvent] (\<lambda>k. demoNow))
                   (demoParams None None)")
    case (Inl err)
    then show ?thesis using t by (simp add: demo_loaders)
  next
    case (Inr out)
    then show ?thesis by blast
  qed
  show ?thesis using 1 2 3 by blast
qed

text \<open>
  C5, as stated, fails: for an event that links a found art installation, a found camp whose
  address does not parse and an \<open>other_location\<close> that does not parse, the result is the art
  installation with its coordinates and source art, neither the label of the camp address
  nor the \<open>other_location\<close> string.
\<close>

theorem resolveEventLocation_priority_counterexample:
  "linkedCampAddress demoCampMap artTeaEvent = Some ''Behind the big tent''
   \<and> coordOf ''Behind the big tent'' = Inl (InvalidLocation ''Behind the big tent'')
   \<and> other_location artTeaEvent = Some ''Far side of the playa''
   \<and> coordOf ''Far side of the playa'' = Inl (InvalidLocation ''Far side of the playa'')
   \<and> resolveEventLocation demoArtMap demoCampMap artTeaEvent =
       Inr \<lparr>loc_lat = Some (Num 0), loc_lon = Some (Num 0), loc_label = ''@ Null Island'',
            loc_source = SourceArt\<rparr>"
  by (simp add: coordOf_tent coordOf_playa resolveEventLocation_def linkedArt_def
        linkedCampAddress_def artTeaEvent_def demoEvent_def truthy_str_def demoArtMap_def
        demoCampMap_def Let_def)

lemma demoParse_values:
  "demoParse ''2025-08-29T00:30:00Z'' = Some 1756427400000"
  "demoParse ''2025-08-29T01:10:00Z'' = Some 1756429800000"
  "demoParse ''2025-08-29T02:00:00Z'' = Some 1756432800000"
  "demoParse ''2025-08-29T02:10:00Z'' = Some 1756433400000"
  "demoParse ''2025-08-29T02:30:00Z'' = Some 1756434600000"
  "demoParse ''2025-08-29T02:30:01Z'' = Some 1756434601000"
  "demoParse ''2025-08-29T03:30:00Z'' = Some 1756438200000"
  "demoParse ''2025-08-30T01:10:00Z'' = Some 1756516200000"
  "demoParse ''2025-08-30T02:10:00Z'' = Some 1756519800000"
  by (simp_all add: demoParse_def)

lemma demo_locals:
  "l_now (mkLocals env (demoParams la lo) events am cm favs) = Some demoNow"
  "l_upcomingCutoff (mkLocals env (demoParams la lo) events am cm favs) = Some 1756434600000"
  "l_artMap (mkLocals env (demoParams la lo) events am cm favs) = am"
  "l_campMap (mkLocals env (demoParams la lo) events am cm favs) = cm"
  "l_events (mkLocals env (demoParams la lo) events am cm favs) = events"
  "l_lat (mkLocals env (demoParams la lo) events am cm favs) = la"
  "l_lon (mkLocals env (demoParams la lo) events am cm favs) = lo"
  "l_radius (mkLocals env (demoParams la lo) events am cm favs) = 1000"
  "l_hasGPS (mkLocals env (demoParams la lo) events am cm favs) =
     (isFiniteNumber la \<and> isFiniteNumber lo)"
  "l_eventTypes (mkLocals env (demoParams la lo) events am cm favs) =
     [''prty'', ''food'', ''tea'', ''arts'', ''work'', ''kid'', ''adlt'', ''othr'']"
  "l_showOnlyActive (mkLocals env (demoParams la lo) events am cm favs) = False"
  "l_showOnlyUpcoming (mkLocals env (demoParams la lo) events am cm favs) = False"
  "l_showOnlyFavorites (mkLocals env (demoParams la lo) events am cm favs) = False"
  by (simp_all add: mkLocals_def demoParams_def Let_def orDefault_def num_add_def demoNow_def
        defaultTimeWindow_def defaultRadius_def newDate_def maxTime_def)

lemma resolve_tea:
  "resolveEventLocation demoArtMap demoCampMap teaEvent =
     Inr \<lparr>loc_lat = None, loc_lon = None, loc_label = ''@ [Behind the big tent]'',
          loc_source = SourceCamp\<rparr>"
  by (simp add: resolveEventLocation_def tea_links coordOf_tent try_catch_def bind_err_def)

lemma tea_fields:
  "uid teaEvent = ''tea''" "event_type teaEvent = None"
  "occurrence_set teaEvent =
     [\<lparr>start_time = ''2025-08-29T00:30:00Z'', end_time = ''2025-08-29T02:00:00Z''\<rparr>]"
  "year teaEvent = 2025"
  by (simp_all add: teaEvent_def demoEvent_def)

lemma future_single:
  "length (occurrence_set event) \<le> 1 \<Longrightarrow> event \<in> set events \<Longrightarrow>
   (\<forall>e\<in>set events. uid e = uid event \<longrightarrow> length (occurrence_set e) \<le> 1) \<Longrightarrow>
   getFutureOccurrences env events k (uid event) start = ([], k)"
  by (auto simp add: getFutureOccurrences_def split: option.splits dest!: find_Some_iff [THEN iffD1]
      intro: nth_mem)

text \<open>The record of the tea event in a run at the search time of the data set.\<close>

lemma tea_occurrence:
  "processOccurrence (demoEnv evs clock)
     (mkLocals (demoEnv evs clock) (demoParams None None) [teaEvent] demoArtMap demoCampMap None)
     teaEvent \<lparr>start_time = ''2025-08-29T00:30:00Z'', end_time = ''2025-08-29T02:00:00Z''\<rparr> k =
   Inr (Some (createProcessedEvent teaEvent
          \<lparr>start_time = ''2025-08-29T00:30:00Z'', end_time = ''2025-08-29T02:00:00Z''\<rparr>
          (Some 1756427400000) (Some 1756432800000) NOW None
          \<lparr>loc_lat = None, loc_lon = None, loc_label = ''@ [Behind the big tent]'',
            loc_source = SourceCamp\<rparr> []), k)"
proof -
  have f: "getFutureOccurrences (demoEnv evs clock) [teaEvent] k (uid teaEvent)
             (Some 1756427400000) = ([], k)"
    by (rule future_single) (simp_all add: tea_fields)
  have s: "determineEventStatus (Some 1756427400000) (Some 1756432800000) (Some demoNow) = NOW"
    by (simp add: status_valid demoNow_def)
  have p: "passesTimeFilter (Some 1756427400000) (Some 1756432800000) (Some demoNow)
             (Some 1756434600000) NOW"
    by (simp add: passes_valid demoNow_def)
  show ?thesis
    using f
    by (simp add: processOccurrence_def Let_def demo_loaders demoParse_values demo_locals s p
          resolve_tea bind_err_def isFiniteNumber_def tea_fields)
qed

lemma tea_run:
  "processEvents (demoEnv [teaEvent] clock) (demoParams None None) =
   Inr [createProcessedEvent teaEvent
          \<lparr>start_time = ''2025-08-29T00:30:00Z'', end_time = ''2025-08-29T02:00:00Z''\<rparr>
          (Some 1756427400000) (Some 1756432800000) NOW None
          \<lparr>loc_lat = None, loc_lon = None, loc_label = ''@ [Behind the big tent]'',
            loc_source = SourceCamp\<rparr> []]"
proof -
  have y: "sp_year (demoParams None None) = None" "sp_now (demoParams None None) = Some (Some demoNow)"
    "showOnlyFavorites (demoParams None None) = None"
    by (simp_all add: demoParams_def)
  show ?thesis
    by (simp add: processEvents_def Let_def y orDefault_def defaultYear_def demo_loaders
          tea_fields bind_err_def tea_occurrence)
qed

theorem processEvents_never_ENDED_witness:
  "processEvents (demoEnv [teaEvent] (\<lambda>k. demoNow)) (demoParams None None) =
     Inr [createProcessedEvent teaEvent
          \<lparr>start_time = ''2025-08-29T00:30:00Z'', end_time = ''2025-08-29T02:00:00Z''\<rparr>
          (Some 1756427400000) (Some 1756432800000) NOW None
          \<lparr>loc_lat = None, loc_lon = None, loc_label = ''@ [Behind the big tent]'',
            loc_source = SourceCamp\<rparr> []]
   \<and> (status (createProcessedEvent teaEvent
          \<lparr>start_time = ''2025-08-29T00:30:00Z'', end_time = ''2025-08-29T02:00:00Z''\<rparr>
          (Some 1756427400000) (Some 1756432800000) NOW None
          \<lparr>loc_lat = None, loc_lon = None, loc_label = ''@ [Behind the big tent]'',
            loc_source = SourceCamp\<rparr> []) = NOW
        \<or> status (createProcessedEvent teaEvent
          \<lparr>start_time = ''2025-08-29T00:30:00Z'', end_time = ''2025-08-29T02:00:00Z''\<rparr>
          (Some 1756427400000) (Some 1756432800000) NOW None
          \<lparr>loc_lat = None, loc_lon = None, loc_label = ''@ [Behind the big tent]'',
            loc_source = SourceCamp\<rparr> []) = SOON
        \<or> status (createProcessedEvent teaEvent
          \<lparr>start_time = ''2025-08-29T00:30:00Z'', end_time = ''2025-08-29T02:00:00Z''\<rparr>
          (Some 1756427400000) (Some 1756432800000) NOW None
          \<lparr>loc_lat = None, loc_lon = None, loc_label = ''@ [Behind the big tent]'',
            loc_source = SourceCamp\<rparr> []) = UPCOMING)"
  using processEvents_never_ENDED [OF tea_run [of "\<lambda>k. demoNow"]] tea_run [of "\<lambda>k. demoNow"]
  by (simp del: status_createProcessedEvent)

section \<open>The event processor: the time window\<close>

lemma occurrenceLoop_step:
  assumes "occurrenceLoop env L event (occ # occs) acc = Inr acc'"
  obtains r where "processOccurrence env L event occ (snd acc) = Inr r"
    and "occurrenceLoop env L event occs
           (case fst r of None \<Rightarrow> fst acc | Some pe \<Rightarrow> fst acc @ [pe], snd r) = Inr acc'"
  using assms by (auto simp add: bind_err_def split: sum.splits)

lemma occurrenceLoop_keeps:
  "occurrenceLoop env L event occs acc = Inr acc' \<Longrightarrow> set (fst acc) \<subseteq> set (fst acc')"
proof (induction occs arbitrary: acc)
  case Nil
  then show ?case by simp
next
  case (Cons occ occs)
  from Cons.prems obtain r where
    rest: "occurrenceLoop env L event occs
             (case fst r of None \<Rightarrow> fst acc | Some pe \<Rightarrow> fst acc @ [pe], snd r) = Inr acc'"
    by (rule occurrenceLoop_step)
  have "set (fst acc) \<subseteq> set (case fst r of None \<Rightarrow> fst acc | Some pe \<Rightarrow> fst acc @ [pe])"
    by (cases "fst r") auto
  then show ?case using Cons.IH [OF rest] by auto
qed

lemma occurrenceLoop_contains:
  "occurrenceLoop env L event occs acc = Inr acc' \<Longrightarrow> occ \<in> set occs \<Longrightarrow>
   \<exists>k r. processOccurrence env L event occ k = Inr r \<and> set_option (fst r) \<subseteq> set (fst acc')"
proof (induction occs arbitrary: acc)
  case Nil
  then show ?case by simp
next
  case (Cons o' occs)
  from Cons.prems(1) obtain r where
    r: "processOccurrence env L event o' (snd acc) = Inr r" and
    rest: "occurrenceLoop env L event occs
             (case fst r of None \<Rightarrow> fst acc | Some pe \<Rightarrow> fst acc @ [pe], snd r) = Inr acc'"
    by (rule occurrenceLoop_step)
  show ?case
  proof (cases "occ = o'")
    case True
    have "set_option (fst r) \<subseteq> set (case fst r of None \<Rightarrow> fst acc | Some pe \<Rightarrow> fst acc @ [pe])"
      by (cases "fst r") auto
    then have "set_option (fst r) \<subseteq> set (fst acc')"
      using occurrenceLoop_keeps [OF rest] by auto
    then show ?thesis using r True by blast
  next
    case False
    then have "occ \<in> set occs" using Cons.prems(2) by simp
    then show ?thesis using Cons.IH [OF rest] by blast
  qed
qed

lemma eventLoop_step:
  assumes "eventLoop env L (event # events) acc = Inr acc'"
  obtains mid where "occurrenceLoop env L event (occurrence_set event) acc = Inr mid"
    and "eventLoop env L events mid = Inr acc'"
  using assms by (auto simp add: bind_err_def split: sum.splits)

lemma eventLoop_keeps:
  "eventLoop env L events acc = Inr acc' \<Longrightarrow> set (fst acc) \<subseteq> set (fst acc')"
proof (induction events arbitrary: acc)
  case Nil
  then show ?case by simp
next
  case (Cons event events)
  from Cons.prems obtain mid where
    m: "occurrenceLoop env L event (occurrence_set event) acc = Inr mid" and
    rest: "eventLoop env L events mid = Inr acc'"
    by (rule eventLoop_step)
  show ?case using occurrenceLoop_keeps [OF m] Cons.IH [OF rest] by auto
qed

lemma eventLoop_contains:
  "eventLoop env L events acc = Inr acc' \<Longrightarrow> event \<in> set events \<Longrightarrow>
   occ \<in> set (occurrence_set event) \<Longrightarrow>
   \<exists>k r. processOccurrence env L event occ k = Inr r \<and> set_option (fst r) \<subseteq> set (fst acc')"
proof (induction events arbitrary: acc)
  case Nil
  then show ?case by simp
next
  case (Cons e events)
  from Cons.prems(1) obtain mid where
    m: "occurrenceLoop env L e (occurrence_set e) acc = Inr mid" and
    rest: "eventLoop env L events mid = Inr acc'"
    by (rule eventLoop_step)
  show ?case
  proof (cases "event = e")
    case True
    then obtain k r where "processOccurrence env L event occ k = Inr r"
      "set_option (fst r) \<subseteq> set (fst mid)"
      using occurrenceLoop_contains [OF m, of occ] Cons.prems(3) by blast
    then show ?thesis using eventLoop_keeps [OF rest] by blast
  next
    case False
    then have "event \<in> set events" using Cons.prems(2) by simp
    then show ?thesis using Cons.IH [OF rest _ Cons.prems(3)] by blast
  qed
qed

lemma processOccurrence_admitted:
  assumes "start_time occ \<noteq> []" "end_time occ \<noteq> []"
    and "passesTimeFilter (dateParse env (start_time occ)) (dateParse env (end_time occ))
           (l_now L) (l_upcomingCutoff L)
           (determineEventStatus (dateParse env (start_time occ)) (dateParse env (end_time occ))
              (l_now L))"
    and "resolveEventLocation (l_artMap L) (l_campMap L) event = Inr loc"
    and "passesLaterFilters L event occ
           (determineEventStatus (dateParse env (start_time occ)) (dateParse env (end_time occ))
              (l_now L)) loc"
  shows "\<exists>d fut k'. processOccurrence env L event occ k =
           Inr (Some (createProcessedEvent event occ (dateParse env (start_time occ))
                        (dateParse env (end_time occ))
                        (determineEventStatus (dateParse env (start_time occ))
                           (dateParse env (end_time occ)) (l_now L))
                        d loc fut), k')"
proof -
  let ?start = "dateParse env (start_time occ)" and ?end = "dateParse env (end_time occ)"
  let ?st = "determineEventStatus ?start ?end (l_now L)"
  let ?measured = "l_hasGPS L \<and> truthy_num (loc_lat loc) \<and> truthy_num (loc_lon loc)"
  let ?d = "haversineMeters (numValue (l_lat L)) (numValue (l_lon L))
              (numValue (loc_lat loc)) (numValue (loc_lon loc))"
  let ?fk = "getFutureOccurrences env (l_events L) k (uid event) ?start"
  have "processOccurrence env L event occ k =
          Inr (Some (createProcessedEvent event occ ?start ?end ?st
                       (if ?measured then Some ?d else None) loc (fst ?fk)), snd ?fk)"
    using assms
    by (simp add: processOccurrence_def Let_def bind_err_def passesLaterFilters_def
          cong: option.case_cong)
  then show ?thesis by blast
qed

lemma processEvents_loop:
  assumes "loadEvents env (orDefault defaultYear (sp_year searchParams)) = Inr events"
    and "getArtMap env = Inr artMap" and "getCampMap env = Inr campMap"
    and "(if orDefault False (showOnlyFavorites searchParams)
          then bind_err (getFavoriteIds env) (\<lambda>ids. Inr (Some ids)) else Inr None)
         = Inr favoriteIds"
  shows "\<exists>acc'. eventLoop env (mkLocals env searchParams events artMap campMap favoriteIds) events
            ([], case sp_now searchParams of Some d \<Rightarrow> 0 | None \<Rightarrow> Suc 0) = Inr acc' \<and>
          processEvents env searchParams = Inr (fst acc')"
proof -
  obtain acc' where a: "eventLoop env (mkLocals env searchParams events artMap campMap favoriteIds)
      events ([], case sp_now searchParams of Some d \<Rightarrow> 0 | None \<Rightarrow> Suc 0) = Inr acc'"
    using eventLoop_total by blast
  have "processEvents env searchParams = Inr (fst acc')"
    using assms a by (simp add: processEvents_def Let_def bind_err_def)
  then show ?thesis using a by blast
qed

lemma mkLocals_window:
  assumes "(case sp_now searchParams of Some d \<Rightarrow> d | None \<Rightarrow> Some (wallClock env 0)) = Some now"
    and "\<bar>now + orDefault defaultTimeWindow (sp_window searchParams) * 60 * 1000\<bar> \<le> maxTime"
  shows "l_now (mkLocals env searchParams events artMap campMap favoriteIds) = Some now"
    and "l_upcomingCutoff (mkLocals env searchParams events artMap campMap favoriteIds) =
          Some (now + orDefault defaultTimeWindow (sp_window searchParams) * 60 * 1000)"
    and "l_artMap (mkLocals env searchParams events artMap campMap favoriteIds) = artMap"
    and "l_campMap (mkLocals env searchParams events artMap campMap favoriteIds) = campMap"
  using assms by (simp_all add: mkLocals_def Let_def num_add_def newDate_def)

lemma passes_spec:
  "passesTimeFilter (Some s) (Some e) (Some n) (Some (n + w * 60 * 1000)) st \<longleftrightarrow>
   spec_admits n w s e"
  by (simp add: passes_valid spec_admits_def)

text \<open>
  C3, amended. Let \<open>now\<close> be the search time, \<open>w\<close> the window (a whole number of minutes), and let the cutoff
  \<open>now + w\<close> minutes lie within the range of \<open>Date\<close>. For an occurrence of a loaded event
  with parseable start and end, the time filter of \<open>processEvents\<close> passes if and only if
  (\<open>start \<le> now \<le> end\<close> and \<open>end - now \<ge> 15\<close> minutes) or (\<open>now < start\<close> and
  \<open>start \<le> now + w\<close> minutes). If it passes and the later filters let the occurrence
  through, the list returned holds the record of the occurrence; if it does not pass, the
  loop body drops the occurrence at once, before the location is resolved and whatever the
  other filters are, and the list returned holds no record with that start and end. For a
  positive window an occurrence that starts exactly at \<open>now + w\<close> minutes is admitted; for a
  window that is not negative one that starts later is dropped.
\<close>

theorem processEvents_time_window:
  assumes now: "(case sp_now searchParams of Some d \<Rightarrow> d | None \<Rightarrow> Some (wallClock env 0))
                = Some now"
    and w: "w = orDefault defaultTimeWindow (sp_window searchParams)"
    and range: "\<bar>now + w * 60 * 1000\<bar> \<le> maxTime"
    and ev: "loadEvents env (orDefault defaultYear (sp_year searchParams)) = Inr events"
    and am: "getArtMap env = Inr artMap"
    and cm: "getCampMap env = Inr campMap"
    and fav: "(if orDefault False (showOnlyFavorites searchParams)
               then bind_err (getFavoriteIds env) (\<lambda>ids. Inr (Some ids)) else Inr None)
              = Inr favoriteIds"
    and L: "L = mkLocals env searchParams events artMap campMap favoriteIds"
    and mem: "event \<in> set events" "occ \<in> set (occurrence_set event)"
    and ne: "start_time occ \<noteq> []" "end_time occ \<noteq> []"
    and parse: "dateParse env (start_time occ) = Some start"
               "dateParse env (end_time occ) = Some end'"
    and st: "st = determineEventStatus (Some start) (Some end') (Some now)"
    and loc: "resolveEventLocation artMap campMap event = Inr loc"
  shows "\<exists>out. processEvents env searchParams = Inr out
     \<and> (passesTimeFilter (Some start) (Some end') (l_now L) (l_upcomingCutoff L) st \<longleftrightarrow>
          spec_admits now w start end')
     \<and> (spec_admits now w start end' \<and> passesLaterFilters L event occ st loc \<longrightarrow>
          (\<exists>d fut. createProcessedEvent event occ (Some start) (Some end') st d loc fut \<in> set out))
     \<and> (\<not> spec_admits now w start end' \<longrightarrow>
          (\<forall>k. processOccurrence env L event occ k = Inr (None, k)) \<and>
          (\<forall>pe\<in>set out. \<not> (pe_start pe = Some start \<and> pe_end pe = Some end')))
     \<and> (0 < w \<and> start = now + w * 60 * 1000 \<and> passesLaterFilters L event occ st loc \<longrightarrow>
          (\<exists>d fut. createProcessedEvent event occ (Some start) (Some end') st d loc fut \<in> set out))
     \<and> (0 \<le> w \<and> now + w * 60 * 1000 < start \<longrightarrow>
          (\<forall>k. processOccurrence env L event occ k = Inr (None, k)) \<and>
          (\<forall>pe\<in>set out. \<not> (pe_start pe = Some start \<and> pe_end pe = Some end')))"
proof -
  have Lf: "l_now L = Some now" "l_upcomingCutoff L = Some (now + w * 60 * 1000)"
    "l_artMap L = artMap" "l_campMap L = campMap"
    using mkLocals_window [OF now, of events artMap campMap favoriteIds] range
    unfolding L w by simp_all
  obtain acc' where loop: "eventLoop env L events
      ([], case sp_now searchParams of Some d \<Rightarrow> 0 | None \<Rightarrow> Suc 0) = Inr acc'"
    and run: "processEvents env searchParams = Inr (fst acc')"
    using processEvents_loop [OF ev am cm fav] unfolding L by blast
  have iff: "passesTimeFilter (Some start) (Some end') (l_now L) (l_upcomingCutoff L) st' \<longleftrightarrow>
          spec_admits now w start end'" for st'
    unfolding Lf by (rule passes_spec)
  have admitted: "\<exists>d fut. createProcessedEvent event occ (Some start) (Some end') st d loc fut
                    \<in> set (fst acc')"
    if a: "spec_admits now w start end'" and o: "passesLaterFilters L event occ st loc"
  proof -
    obtain k r where r: "processOccurrence env L event occ k = Inr r"
      and sub: "set_option (fst r) \<subseteq> set (fst acc')"
      using eventLoop_contains [OF loop mem] by blast
    have "\<exists>d fut k'. processOccurrence env L event occ k =
           Inr (Some (createProcessedEvent event occ (dateParse env (start_time occ))
                        (dateParse env (end_time occ))
                        (determineEventStatus (dateParse env (start_time occ))
                           (dateParse env (end_time occ)) (l_now L))
                        d loc fut), k')"
      by (rule processOccurrence_admitted)
         (use ne a o iff loc in \<open>simp_all add: parse Lf st\<close>)
    then obtain d fut k' where
      "processOccurrence env L event occ k =
         Inr (Some (createProcessedEvent event occ (Some start) (Some end') st d loc fut), k')"
      unfolding parse Lf st by blast
    then have "createProcessedEvent event occ (Some start) (Some end') st d loc fut
                 \<in> set (fst acc')"
      using r sub by auto
    then show ?thesis by blast
  qed
  have dropped: "(\<forall>k. processOccurrence env L event occ k = Inr (None, k)) \<and>
          (\<forall>pe\<in>set (fst acc'). \<not> (pe_start pe = Some start \<and> pe_end pe = Some end'))"
    if n: "\<not> spec_admits now w start end'"
  proof
    show "\<forall>k. processOccurrence env L event occ k = Inr (None, k)"
      using processOccurrence_dropped [OF ne, of env L event] n iff
      unfolding parse by blast
    have "\<forall>pe\<in>set (fst acc').
            pe_start pe = Some start \<and> pe_end pe = Some end' \<longrightarrow> spec_admits now w start end'"
    proof (rule eventLoop_invariant [where acc = "([], case sp_now searchParams of
                Some d \<Rightarrow> 0 | None \<Rightarrow> Suc 0)" and env = env and L = L and events = events])
      fix event' occ' k pe k'
      assume "processOccurrence env L event' occ' k = Inr (Some pe, k')"
      from processOccurrence_emitted [OF this]
      have p: "passesTimeFilter (dateParse env (start_time occ')) (dateParse env (end_time occ'))
                 (l_now L) (l_upcomingCutoff L)
                 (determineEventStatus (dateParse env (start_time occ'))
                    (dateParse env (end_time occ')) (l_now L))"
        and s: "pe_start pe = dateParse env (start_time occ')"
               "pe_end pe = dateParse env (end_time occ')"
        by (auto simp add: createProcessedEvent_def)
      show "pe_start pe = Some start \<and> pe_end pe = Some end' \<longrightarrow> spec_admits now w start end'"
        using p iff unfolding s by auto
    qed (use loop in simp_all)
    then show "\<forall>pe\<in>set (fst acc'). \<not> (pe_start pe = Some start \<and> pe_end pe = Some end')"
      using n by blast
  qed
  have edge: "spec_admits now w start end'" if "0 < w" "start = now + w * 60 * 1000"
    using that by (simp add: spec_admits_def)
  have late: "\<not> spec_admits now w start end'" if "0 \<le> w" "now + w * 60 * 1000 < start"
    using that by (simp add: spec_admits_def)
  show ?thesis
    using run iff [of st] admitted dropped edge late by blast
qed

lemma resolve_camp:
  "resolveEventLocation demoArtMap demoCampMap (demoEvent u t occs None (Some ''c1'') None) =
     Inr \<lparr>loc_lat = None, loc_lon = None, loc_label = ''@ [Behind the big tent]'',
          loc_source = SourceCamp\<rparr>"
  by (simp add: resolveEventLocation_def linkedArt_def linkedCampAddress_def demoEvent_def
        truthy_str_def demoCampMap_def coordOf_tent try_catch_def bind_err_def)

lemma demo_later_filters:
  "passesLaterFilters (mkLocals env (demoParams None None) events am cm favs)
     (demoEvent u t occs art camp other) occ st loc"
  by (simp add: passesLaterFilters_def demo_locals isFiniteNumber_def demoEvent_def)

lemma demo_params:
  "sp_year (demoParams la lo) = None" "sp_now (demoParams la lo) = Some (Some demoNow)"
  "showOnlyFavorites (demoParams la lo) = None" "sp_window (demoParams la lo) = None"
  by (simp_all add: demoParams_def)

theorem processEvents_time_window_witness:
  "(\<exists>out. processEvents (demoEnv [edgeEvent, lateEvent] (\<lambda>k. demoNow)) (demoParams None None)
            = Inr out
      \<and> (\<exists>d fut. createProcessedEvent edgeEvent
            \<lparr>start_time = ''2025-08-29T02:30:00Z'', end_time = ''2025-08-29T03:30:00Z''\<rparr>
            (Some (demoNow + 90 * 60 * 1000)) (Some 1756438200000) UPCOMING d
            \<lparr>loc_lat = None, loc_lon = None, loc_label = ''@ [Behind the big tent]'',
              loc_source = SourceCamp\<rparr> fut \<in> set out))
   \<and> (\<exists>out. processEvents (demoEnv [edgeEvent, lateEvent] (\<lambda>k. demoNow)) (demoParams None None)
            = Inr out
      \<and> \<not> (\<exists>pe\<in>set out. pe_start pe = Some (demoNow + 90 * 60 * 1000 + 1000) \<and>
                          pe_end pe = Some 1756438200000))
   \<and> processOccurrence (demoEnv [edgeEvent, lateEvent] (\<lambda>k. demoNow))
       (mkLocals (demoEnv [edgeEvent, lateEvent] (\<lambda>k. demoNow)) (demoParams None None)
          [edgeEvent, lateEvent] demoArtMap demoCampMap None)
       lateEvent \<lparr>start_time = ''2025-08-29T02:30:01Z'', end_time = ''2025-08-29T03:30:00Z''\<rparr> 0
     = Inr (None, 0)"
proof -
  let ?env = "demoEnv [edgeEvent, lateEvent] (\<lambda>k. demoNow)"
  let ?L = "mkLocals ?env (demoParams None None) [edgeEvent, lateEvent] demoArtMap demoCampMap None"
  let ?loc = "\<lparr>loc_lat = None, loc_lon = None, loc_label = ''@ [Behind the big tent]'',
              loc_source = SourceCamp\<rparr>"
  have n: "(case sp_now (demoParams None None) of Some d \<Rightarrow> d | None \<Rightarrow> Some (wallClock ?env 0))
           = Some demoNow"
    by (simp add: demo_params)
  have w: "90 = orDefault defaultTimeWindow (sp_window (demoParams None None))"
    by (simp add: demo_params orDefault_def defaultTimeWindow_def)
  have r: "\<bar>demoNow + 90 * 60 * 1000\<bar> \<le> maxTime" by (simp add: demoNow_def maxTime_def)
  have ev: "loadEvents ?env (orDefault defaultYear (sp_year (demoParams None None)))
            = Inr [edgeEvent, lateEvent]"
    by (simp add: demo_loaders demo_params orDefault_def defaultYear_def edgeEvent_def
          lateEvent_def demoEvent_def)
  have fav: "(if orDefault False (showOnlyFavorites (demoParams None None))
              then bind_err (getFavoriteIds ?env) (\<lambda>ids. Inr (Some ids)) else Inr None)
             = Inr None"
    by (simp add: demo_params orDefault_def)
  have s1: "UPCOMING = determineEventStatus (Some (demoNow + 90 * 60 * 1000)) (Some 1756438200000)
              (Some demoNow)"
    and s2: "UPCOMING = determineEventStatus (Some (demoNow + 90 * 60 * 1000 + 1000))
              (Some 1756438200000) (Some demoNow)"
    by (simp_all add: status_valid demoNow_def)
  have edge: "resolveEventLocation demoArtMap demoCampMap edgeEvent = Inr ?loc"
    and late: "resolveEventLocation demoArtMap demoCampMap lateEvent = Inr ?loc"
    unfolding edgeEvent_def lateEvent_def by (rule resolve_camp)+
  have f: "passesLaterFilters ?L edgeEvent
             \<lparr>start_time = ''2025-08-29T02:30:00Z'', end_time = ''2025-08-29T03:30:00Z''\<rparr>
             UPCOMING ?loc"
    unfolding edgeEvent_def by (rule demo_later_filters)
  note a = processEvents_time_window
    [where env = ?env and searchParams = "demoParams None None" and now = demoNow and w = 90
       and events = "[edgeEvent, lateEvent]" and artMap = demoArtMap and campMap = demoCampMap
       and favoriteIds = None and L = ?L and event = edgeEvent
       and occ = "\<lparr>start_time = ''2025-08-29T02:30:00Z'', end_time = ''2025-08-29T03:30:00Z''\<rparr>"
       and start = "demoNow + 90 * 60 * 1000" and end' = 1756438200000 and st = UPCOMING
       and loc = ?loc,
     OF n w r ev _ _ fav refl _ _ _ _ _ _ s1 edge]
  note b = processEvents_time_window
    [where env = ?env and searchParams = "demoParams None None" and now = demoNow and w = 90
       and events = "[edgeEvent, lateEvent]" and artMap = demoArtMap and campMap = demoCampMap
       and favoriteIds = None and L = ?L and event = lateEvent
       and occ = "\<lparr>start_time = ''2025-08-29T02:30:01Z'', end_time = ''2025-08-29T03:30:00Z''\<rparr>"
       and start = "demoNow + 90 * 60 * 1000 + 1000" and end' = 1756438200000 and st = UPCOMING
       and loc = ?loc,
     OF n w r ev _ _ fav refl _ _ _ _ _ _ s2 late]
  have 1: "\<exists>out. processEvents ?env (demoParams None None) = Inr out
      \<and> (\<exists>d fut. createProcessedEvent edgeEvent
            \<lparr>start_time = ''2025-08-29T02:30:00Z'', end_time = ''2025-08-29T03:30:00Z''\<rparr>
            (Some (demoNow + 90 * 60 * 1000)) (Some 1756438200000) UPCOMING d ?loc fut \<in> set out)"
    using a f
    by (simp add: demo_loaders demoParse_values demoNow_def edgeEvent_def [symmetric])
       (auto simp add: edgeEvent_def demoEvent_def)
  have 2: "\<exists>out. processEvents ?env (demoParams None None) = Inr out
      \<and> \<not> (\<exists>pe\<in>set out. pe_start pe = Some (demoNow + 90 * 60 * 1000 + 1000) \<and>
                          pe_end pe = Some 1756438200000)"
    and 3: "processOccurrence ?env ?L lateEvent
       \<lparr>start_time = ''2025-08-29T02:30:01Z'', end_time = ''2025-08-29T03:30:00Z''\<rparr> 0
     = Inr (None, 0)"
    using b
    by (simp_all add: demo_loaders demoParse_values demoNow_def lateEvent_def [symmetric])
       (auto simp add: lateEvent_def demoEvent_def)
  show ?thesis using 1 2 3 by blast
qed

text \<open>A data set of one event with one occurrence that is dropped gives the empty list.\<close>

lemma single_dropped:
  "occurrence_set event = [occ] \<Longrightarrow> processOccurrence env L event occ k = Inr (None, k) \<Longrightarrow>
   eventLoop env L [event] ([], k) = Inr ([], k)"
  by (simp add: bind_err_def)

text \<open>
  C3, as stated, fails in two ways. With a window of 0 minutes, an occurrence of ten minutes
  that starts exactly at \<open>now + 0\<close> is not admitted. With a window of \<open>10^14\<close> minutes the
  cutoff is an Invalid Date, and an occurrence with \<open>now < start \<le> now + w\<close> minutes is
  dropped.
\<close>

theorem processEvents_time_window_counterexample:
  "occurrence_set briefEvent =
     [\<lparr>start_time = ''2025-08-29T01:00:00Z'', end_time = ''2025-08-29T01:10:00Z''\<rparr>]
   \<and> demoParse ''2025-08-29T01:00:00Z'' = Some (demoNow + 0 * 60 * 1000)
   \<and> demoParse ''2025-08-29T01:10:00Z'' = Some 1756429800000
   \<and> processEvents (demoEnv [briefEvent] (\<lambda>k. demoNow))
        ((demoParams None None)\<lparr>sp_window := Some 0\<rparr>) = Inr []
   \<and> occurrence_set edgeEvent =
     [\<lparr>start_time = ''2025-08-29T02:30:00Z'', end_time = ''2025-08-29T03:30:00Z''\<rparr>]
   \<and> demoParse ''2025-08-29T02:30:00Z'' = Some 1756434600000
   \<and> demoParse ''2025-08-29T03:30:00Z'' = Some 1756438200000
   \<and> demoNow < 1756434600000
   \<and> 1756434600000 \<le> demoNow + 100000000000000 * 60 * 1000
   \<and> processEvents (demoEnv [edgeEvent] (\<lambda>k. demoNow))
        ((demoParams None None)\<lparr>sp_window := Some 100000000000000\<rparr>) = Inr []"
proof -
  let ?env1 = "demoEnv [briefEvent] (\<lambda>k. demoNow)"
  let ?p1 = "(demoParams None None)\<lparr>sp_window := Some 0\<rparr>"
  let ?env2 = "demoEnv [edgeEvent] (\<lambda>k. demoNow)"
  let ?p2 = "(demoParams None None)\<lparr>sp_window := Some 100000000000000\<rparr>"
  have o1: "occurrence_set briefEvent =
     [\<lparr>start_time = ''2025-08-29T01:00:00Z'', end_time = ''2025-08-29T01:10:00Z''\<rparr>]"
    and o2: "occurrence_set edgeEvent =
     [\<lparr>start_time = ''2025-08-29T02:30:00Z'', end_time = ''2025-08-29T03:30:00Z''\<rparr>]"
    and y: "year briefEvent = 2025" "year edgeEvent = 2025"
    by (simp_all add: briefEvent_def edgeEvent_def demoEvent_def)
  have v: "demoParse ''2025-08-29T01:00:00Z'' = Some 1756429200000"
    by (simp add: demoParse_def)
  have L1: "l_now (mkLocals ?env1 ?p1 [briefEvent] demoArtMap demoCampMap None) = Some demoNow"
    "l_upcomingCutoff (mkLocals ?env1 ?p1 [briefEvent] demoArtMap demoCampMap None) = Some demoNow"
    and L2: "l_now (mkLocals ?env2 ?p2 [edgeEvent] demoArtMap demoCampMap None) = Some demoNow"
    "l_upcomingCutoff (mkLocals ?env2 ?p2 [edgeEvent] demoArtMap demoCampMap None) = None"
    by (simp_all add: mkLocals_def Let_def demoParams_def orDefault_def num_add_def newDate_def
          maxTime_def demoNow_def)
  have p1: "\<not> passesTimeFilter (Some 1756429200000) (Some 1756429800000) (Some demoNow)
               (Some demoNow) st" for st
    by (simp add: passes_valid demoNow_def)
  have p2: "\<not> passesTimeFilter (Some 1756434600000) (Some 1756438200000) (Some demoNow)
               None st" for st
    by (simp add: passesTimeFilter_def num_le_def num_lt_def num_sub_def buffer_def demoNow_def)
  have d1: "processOccurrence ?env1 (mkLocals ?env1 ?p1 [briefEvent] demoArtMap demoCampMap None)
      briefEvent \<lparr>start_time = ''2025-08-29T01:00:00Z'', end_time = ''2025-08-29T01:10:00Z''\<rparr> 0
      = Inr (None, 0)"
    by (rule processOccurrence_dropped) (simp_all add: demo_loaders demoParse_values v L1 p1)
  have d2: "processOccurrence ?env2 (mkLocals ?env2 ?p2 [edgeEvent] demoArtMap demoCampMap None)
      edgeEvent \<lparr>start_time = ''2025-08-29T02:30:00Z'', end_time = ''2025-08-29T03:30:00Z''\<rparr> 0
      = Inr (None, 0)"
    by (rule processOccurrence_dropped) (simp_all add: demo_loaders demoParse_values L2 p2)
  have r1: "processEvents ?env1 ?p1 = Inr []"
    using single_dropped [OF o1 d1]
    by (simp add: processEvents_def Let_def demoParams_def orDefault_def defaultYear_def
          demo_loaders y bind_err_def)
  have r2: "processEvents ?env2 ?p2 = Inr []"
    using single_dropped [OF o2 d2]
    by (simp add: processEvents_def Let_def demoParams_def orDefault_def defaultYear_def
          demo_loaders y bind_err_def)
  show ?thesis
    using o1 o2 r1 r2 by (simp add: demoParse_values v demoNow_def)
qed

section \<open>The event processor: distance\<close>

lemma distance_createProcessedEvent [simp]:
  "distance (createProcessedEvent event occ start end' st d loc fut) = d"
  "pe_lat (createProcessedEvent event occ start end' st d loc fut) = loc_lat loc"
  "pe_lon (createProcessedEvent event occ start end' st d loc fut) = loc_lon loc"
  by (simp_all add: createProcessedEvent_def)

text \<open>
  What the distance step does: the distance is measured when the viewer has a position and
  both coordinates of the location are truthy; a measured occurrence is kept only within
  the radius, and an occurrence that is not measured carries no distance.
\<close>

lemma processOccurrence_distance:
  assumes "processOccurrence env L event occ k = Inr (Some pe, k')"
    and "resolveEventLocation (l_artMap L) (l_campMap L) event = Inr loc"
  shows "if l_hasGPS L \<and> truthy_num (loc_lat loc) \<and> truthy_num (loc_lon loc)
         then distance pe = Some (haversineMeters (numValue (l_lat L)) (numValue (l_lon L))
                                    (numValue (loc_lat loc)) (numValue (loc_lon loc))) \<and>
              haversineMeters (numValue (l_lat L)) (numValue (l_lon L))
                 (numValue (loc_lat loc)) (numValue (loc_lon loc)) \<le> l_radius L
         else distance pe = None"
  using assms
  by (auto simp add: processOccurrence_def Let_def bind_err_def split: if_splits)

lemma processOccurrence_too_far:
  assumes "resolveEventLocation (l_artMap L) (l_campMap L) event = Inr loc"
    and "l_hasGPS L" "truthy_num (loc_lat loc)" "truthy_num (loc_lon loc)"
    and "haversineMeters (numValue (l_lat L)) (numValue (l_lon L))
           (numValue (loc_lat loc)) (numValue (loc_lon loc)) > l_radius L"
  shows "processOccurrence env L event occ k = Inr (None, k)"
  using assms by (simp add: processOccurrence_def Let_def bind_err_def)

lemma haversine_antimeridian: "haversineMeters 0 180 0 0 = R_earth * pi"
proof -
  have "sin ((0 - 180) * pi / 180 / 2) = - 1"
  proof -
    have "(0 - 180) * pi / 180 / 2 = - (pi / 2)" by simp
    then show ?thesis by (simp only: sin_minus sin_pi_half)
  qed
  then show ?thesis by (simp add: haversineMeters_def Let_def)
qed

lemma art_links:
  "linkedArt demoArtMap artEvent =
     Some \<lparr>art_name = ''Null Island'',
           art_location = Some \<lparr>gps_latitude = Some 0, gps_longitude = Some 0\<rparr>\<rparr>"
  by (simp add: linkedArt_def artEvent_def demoEvent_def truthy_str_def demoArtMap_def)

lemma resolve_art:
  "resolveEventLocation demoArtMap demoCampMap artEvent =
     Inr \<lparr>loc_lat = Some (Num 0), loc_lon = Some (Num 0), loc_label = ''@ Null Island'',
          loc_source = SourceArt\<rparr>"
  by (simp add: resolveEventLocation_def art_links)

lemma art_fields:
  "uid artEvent = ''art''" "event_type artEvent = None"
  "occurrence_set artEvent =
     [\<lparr>start_time = ''2025-08-29T00:30:00Z'', end_time = ''2025-08-29T02:00:00Z''\<rparr>]"
  "year artEvent = 2025"
  by (simp_all add: artEvent_def demoEvent_def)

lemma art_occurrence:
  "processOccurrence (demoEnv evs clock)
     (mkLocals (demoEnv evs clock) (demoParams (Some (Num 0)) (Some (Num 180))) [artEvent]
        demoArtMap demoCampMap None)
     artEvent \<lparr>start_time = ''2025-08-29T00:30:00Z'', end_time = ''2025-08-29T02:00:00Z''\<rparr> k =
   Inr (Some (createProcessedEvent artEvent
          \<lparr>start_time = ''2025-08-29T00:30:00Z'', end_time = ''2025-08-29T02:00:00Z''\<rparr>
          (Some 1756427400000) (Some 1756432800000) NOW None
          \<lparr>loc_lat = Some (Num 0), loc_lon = Some (Num 0), loc_label = ''@ Null Island'',
            loc_source = SourceArt\<rparr> []), k)"
proof -
  have f: "getFutureOccurrences (demoEnv evs clock) [artEvent] k (uid artEvent)
             (Some 1756427400000) = ([], k)"
    by (rule future_single) (simp_all add: art_fields)
  have s: "determineEventStatus (Some 1756427400000) (Some 1756432800000) (Some demoNow) = NOW"
    by (simp add: status_valid demoNow_def)
  have p: "passesTimeFilter (Some 1756427400000) (Some 1756432800000) (Some demoNow)
             (Some 1756434600000) NOW"
    by (simp add: passes_valid demoNow_def)
  show ?thesis
    using f
    by (simp add: processOccurrence_def Let_def demo_loaders demoParse_values demo_locals s p
          resolve_art bind_err_def truthy_num_def art_fields)
qed

text \<open>
  C4 fails on the code for a resolved coordinate with a zero component. The viewer stands
  at latitude 0, longitude 180, the radius is the default 1000 metres, and the event is at
  an art installation recorded at latitude 0, longitude 0, half the globe away: the record
  is returned with both coordinates and with no distance.
\<close>

theorem processEvents_zero_coordinate_kept:
  "processEvents (demoEnv [artEvent] (\<lambda>k. demoNow)) (demoParams (Some (Num 0)) (Some (Num 180))) =
     Inr [createProcessedEvent artEvent
          \<lparr>start_time = ''2025-08-29T00:30:00Z'', end_time = ''2025-08-29T02:00:00Z''\<rparr>
          (Some 1756427400000) (Some 1756432800000) NOW None
          \<lparr>loc_lat = Some (Num 0), loc_lon = Some (Num 0), loc_label = ''@ Null Island'',
            loc_source = SourceArt\<rparr> []]
   \<and> haversineMeters 0 180 0 0 > defaultRadius"
proof -
  have y: "sp_year (demoParams (Some (Num 0)) (Some (Num 180))) = None"
    "sp_now (demoParams (Some (Num 0)) (Some (Num 180))) = Some (Some demoNow)"
    "showOnlyFavorites (demoParams (Some (Num 0)) (Some (Num 180))) = None"
    by (simp_all add: demoParams_def)
  have run: "processEvents (demoEnv [artEvent] (\<lambda>k. demoNow))
      (demoParams (Some (Num 0)) (Some (Num 180))) =
     Inr [createProcessedEvent artEvent
          \<lparr>start_time = ''2025-08-29T00:30:00Z'', end_time = ''2025-08-29T02:00:00Z''\<rparr>
          (Some 1756427400000) (Some 1756432800000) NOW None
          \<lparr>loc_lat = Some (Num 0), loc_lon = Some (Num 0), loc_label = ''@ Null Island'',
            loc_source = SourceArt\<rparr> []]"
    by (simp add: processEvents_def Let_def y orDefault_def defaultYear_def demo_loaders
          art_fields bind_err_def art_occurrence)
  have "(1000::real) < 6371000 * 2" by simp
  also have "\<dots> \<le> 6371000 * pi" using pi_ge_two by simp
  finally have "haversineMeters 0 180 0 0 > defaultRadius"
    by (simp add: haversine_antimeridian R_earth_def defaultRadius_def)
  then show ?thesis using run by simp
qed

section \<open>The event processor and the wall clock\<close>

lemma withoutFuture_create [simp]:
  "withoutFuture (createProcessedEvent event occ start end' st d loc fut) =
   createProcessedEvent event occ start end' st d loc []"
  by (simp add: withoutFuture_def createProcessedEvent_def)

lemma future_count:
  "snd (getFutureOccurrences (env\<lparr>wallClock := c\<rparr>) events k u s) =
   snd (getFutureOccurrences env events k u s)"
  by (simp add: getFutureOccurrences_def Let_def split: option.splits)

lemma mkLocals_clock:
  "sp_now searchParams = Some now \<Longrightarrow>
   mkLocals (env\<lparr>wallClock := c1\<rparr>) searchParams events am cm favs =
   mkLocals (env\<lparr>wallClock := c2\<rparr>) searchParams events am cm favs"
  by (simp add: mkLocals_def Let_def)

text \<open>Two results of the loop body or of a loop that differ at most in the future days.\<close>

lemma processOccurrence_clock:
  "\<exists>r1 r2. processOccurrence (env\<lparr>wallClock := c1\<rparr>) L event occ k = Inr r1 \<and>
           processOccurrence (env\<lparr>wallClock := c2\<rparr>) L event occ k = Inr r2 \<and>
           map_option withoutFuture (fst r1) = map_option withoutFuture (fst r2) \<and>
           snd r1 = snd r2"
proof -
  obtain loc where loc: "resolveEventLocation (l_artMap L) (l_campMap L) event = Inr loc"
    using resolveEventLocation_total by blast
  obtain r1 where r1: "processOccurrence (env\<lparr>wallClock := c1\<rparr>) L event occ k = Inr r1"
    using processOccurrence_total by blast
  obtain r2 where r2: "processOccurrence (env\<lparr>wallClock := c2\<rparr>) L event occ k = Inr r2"
    using processOccurrence_total by blast
  have "map_option withoutFuture (fst r1) = map_option withoutFuture (fst r2) \<and> snd r1 = snd r2"
    using r1 r2 loc
    by (auto simp add: processOccurrence_def Let_def bind_err_def future_count
             split: if_splits)
  then show ?thesis using r1 r2 by blast
qed

lemma occurrenceLoop_Cons:
  "occurrenceLoop env L event (occ # occs) (a, k) =
     bind_err (processOccurrence env L event occ k) (\<lambda>r.
       occurrenceLoop env L event occs
         (case fst r of None \<Rightarrow> a | Some pe \<Rightarrow> a @ [pe], snd r))"
  by (simp cong: option.case_cong)

lemma occurrenceLoop_clock:
  "map withoutFuture a1 = map withoutFuture a2 \<Longrightarrow>
   \<exists>r1 r2. occurrenceLoop (env\<lparr>wallClock := c1\<rparr>) L event occs (a1, k) = Inr r1 \<and>
           occurrenceLoop (env\<lparr>wallClock := c2\<rparr>) L event occs (a2, k) = Inr r2 \<and>
           map withoutFuture (fst r1) = map withoutFuture (fst r2) \<and> snd r1 = snd r2"
proof (induction occs arbitrary: a1 a2 k)
  case Nil
  then show ?case by simp
next
  case (Cons occ occs)
  obtain r1 r2 where
    r: "processOccurrence (env\<lparr>wallClock := c1\<rparr>) L event occ k = Inr r1"
       "processOccurrence (env\<lparr>wallClock := c2\<rparr>) L event occ k = Inr r2"
       "map_option withoutFuture (fst r1) = map_option withoutFuture (fst r2)"
       "snd r1 = snd r2"
    using processOccurrence_clock by blast
  have "map withoutFuture (case fst r1 of None \<Rightarrow> a1 | Some pe \<Rightarrow> a1 @ [pe]) =
        map withoutFuture (case fst r2 of None \<Rightarrow> a2 | Some pe \<Rightarrow> a2 @ [pe])"
    using r(3) Cons.prems by (cases "fst r1"; cases "fst r2") simp_all
  from Cons.IH [OF this, of "snd r1"] show ?case
    using r by (simp add: occurrenceLoop_Cons bind_err_def del: occurrenceLoop.simps)
qed

lemma eventLoop_clock:
  "map withoutFuture a1 = map withoutFuture a2 \<Longrightarrow>
   \<exists>r1 r2. eventLoop (env\<lparr>wallClock := c1\<rparr>) L events (a1, k) = Inr r1 \<and>
           eventLoop (env\<lparr>wallClock := c2\<rparr>) L events (a2, k) = Inr r2 \<and>
           map withoutFuture (fst r1) = map withoutFuture (fst r2) \<and> snd r1 = snd r2"
proof (induction events arbitrary: a1 a2 k)
  case Nil
  then show ?case by simp
next
  case (Cons event events)
  obtain m1 m2 where
    m: "occurrenceLoop (env\<lparr>wallClock := c1\<rparr>) L event (occurrence_set event) (a1, k) = Inr m1"
       "occurrenceLoop (env\<lparr>wallClock := c2\<rparr>) L event (occurrence_set event) (a2, k) = Inr m2"
       "map withoutFuture (fst m1) = map withoutFuture (fst m2)" "snd m1 = snd m2"
    using occurrenceLoop_clock [OF Cons.prems] by blast
  from Cons.IH [OF m(3), of "snd m1"] show ?case
    using m by (cases m1; cases m2) (simp add: bind_err_def)
qed

lemma compareEvents_clock:
  "compareEvents (env\<lparr>wallClock := c\<rparr>) sortType = compareEvents env sortType"
  by (cases sortType) (simp_all add: compareEvents_def fun_eq_iff)

text \<open>
  C7, amended. For fixed data, fixed search parameters and a fixed \<open>now\<close> override, two runs
  of \<open>processEvents\<close> at different wall-clock times fail alike or return lists that agree
  in every field of every record except \<open>futureOccurrences\<close> (the days of the later
  occurrences of a recurring event, which are taken relative to the wall clock); and
  \<open>sortEvents\<close> returns the same list at any wall-clock time.
\<close>

theorem processEvents_wall_clock:
  assumes "sp_now searchParams = Some now"
  shows "map_sum id (map withoutFuture) (processEvents (env\<lparr>wallClock := clock1\<rparr>) searchParams) =
         map_sum id (map withoutFuture) (processEvents (env\<lparr>wallClock := clock2\<rparr>) searchParams)
     \<and> sortEvents (env\<lparr>wallClock := clock1\<rparr>) events sortType time1 =
       sortEvents (env\<lparr>wallClock := clock2\<rparr>) events sortType time2"
proof -
  let ?e1 = "env\<lparr>wallClock := clock1\<rparr>" and ?e2 = "env\<lparr>wallClock := clock2\<rparr>"
  let ?y = "orDefault defaultYear (sp_year searchParams)"
  have s: "sortEvents ?e1 events sortType time1 = sortEvents ?e2 events sortType time2"
    by (simp add: sortEvents_def compareEvents_clock)
  have loop: "map_sum id (\<lambda>r. map withoutFuture (fst r))
                (eventLoop ?e1 (mkLocals ?e1 searchParams evs am cm favs) evs ([], 0)) =
              map_sum id (\<lambda>r. map withoutFuture (fst r))
                (eventLoop ?e2 (mkLocals ?e2 searchParams evs am cm favs) evs ([], 0))"
    for evs am cm favs
  proof -
    obtain r1 r2 where
      "eventLoop ?e1 (mkLocals ?e2 searchParams evs am cm favs) evs ([], 0) = Inr r1"
      "eventLoop ?e2 (mkLocals ?e2 searchParams evs am cm favs) evs ([], 0) = Inr r2"
      "map withoutFuture (fst r1) = map withoutFuture (fst r2)"
      using eventLoop_clock [where ?a1.0 = "[]" and ?a2.0 = "[]" and env = env
          and ?c1.0 = clock1 and ?c2.0 = clock2 and events = evs and k = 0
          and L = "mkLocals ?e2 searchParams evs am cm favs"] by auto
    then show ?thesis
      unfolding mkLocals_clock [OF assms, where env = env and ?c1.0 = clock1 and ?c2.0 = clock2
          and events = evs and am = am and cm = cm and favs = favs] by simp
  qed
  have p: "map_sum id (map withoutFuture) (processEvents ?e1 searchParams) =
           map_sum id (map withoutFuture) (processEvents ?e2 searchParams)"
  proof (cases "loadEvents env ?y")
    case (Inl e)
    then show ?thesis by (simp add: processEvents_def Let_def bind_err_def)
  next
    case ev: (Inr evs)
    show ?thesis
    proof (cases "getArtMap env")
      case (Inl e)
      then show ?thesis using ev by (simp add: processEvents_def Let_def bind_err_def)
    next
      case am: (Inr am)
      show ?thesis
      proof (cases "getCampMap env")
        case (Inl e)
        then show ?thesis using ev am by (simp add: processEvents_def Let_def bind_err_def)
      next
        case cm: (Inr cm)
        show ?thesis
        proof (cases "orDefault False (showOnlyFavorites searchParams)")
          case False
          then show ?thesis
            using ev am cm assms loop [of evs am cm None]
            by (auto simp add: processEvents_def Let_def bind_err_def split: sum.splits)
        next
          case True
          show ?thesis
          proof (cases "getFavoriteIds env")
            case (Inl e)
            then show ?thesis
              using ev am cm True by (simp add: processEvents_def Let_def bind_err_def)
          next
            case (Inr ids)
            then show ?thesis
              using ev am cm True assms loop [of evs am cm "Some ids"]
              by (auto simp add: processEvents_def Let_def bind_err_def split: sum.splits)
          qed
        qed
      qed
    qed
  qed
  show ?thesis using p s by simp
qed

lemma yoga_fields:
  "uid yogaEvent = ''yoga''" "event_type yogaEvent = None"
  "occurrence_set yogaEvent =
     [\<lparr>start_time = ''2025-08-29T01:10:00Z'', end_time = ''2025-08-29T02:10:00Z''\<rparr>,
      \<lparr>start_time = ''2025-08-30T01:10:00Z'', end_time = ''2025-08-30T02:10:00Z''\<rparr>]"
  "year yogaEvent = 2025"
  by (simp_all add: yogaEvent_def demoEvent_def)

lemma resolve_yoga:
  "resolveEventLocation demoArtMap demoCampMap yogaEvent =
     Inr \<lparr>loc_lat = None, loc_lon = None, loc_label = ''Far side of the playa'',
          loc_source = SourceOther\<rparr>"
  by (simp add: resolveEventLocation_def yoga_links coordOf_playa try_catch_def bind_err_def
        truthy_str_def)

lemma friday: "dayOrder ! getDay (demoEnv evs clock) 1756516200000 = ''F''"
  by (simp add: getDay_def demoEnv_def dayOrder_def)

lemma yoga_future_early:
  "getFutureOccurrences (demoEnv evs (\<lambda>k. demoNow)) [yogaEvent] k ''yoga''
     (Some 1756429800000) = (''F'', Suc k)"
  by (simp add: getFutureOccurrences_def yoga_fields Let_def demo_loaders demoParse_values
        num_lt_def demoNow_def friday js_sort_def)

lemma yoga_future_late:
  "getFutureOccurrences (demoEnv evs (\<lambda>k. 1756700000000)) [yogaEvent] k ''yoga''
     (Some 1756429800000) = ([], Suc k)"
  by (simp add: getFutureOccurrences_def yoga_fields Let_def demo_loaders demoParse_values
        num_lt_def js_sort_def)

lemma yoga_status:
  "determineEventStatus (Some 1756429800000) (Some 1756433400000) (Some demoNow) = SOON"
  "passesTimeFilter (Some 1756429800000) (Some 1756433400000) (Some demoNow)
     (Some 1756434600000) SOON"
  "\<not> passesTimeFilter (Some 1756516200000) (Some 1756519800000) (Some demoNow)
     (Some 1756434600000) st"
  by (simp_all add: status_valid passes_valid demoNow_def)

lemma yoga_first:
  assumes "getFutureOccurrences (demoEnv evs clock) [yogaEvent] k ''yoga''
             (Some 1756429800000) = (fut, Suc k)"
  shows "processOccurrence (demoEnv evs clock)
     (mkLocals (demoEnv evs clock) (demoParams None None) [yogaEvent] demoArtMap demoCampMap None)
     yogaEvent \<lparr>start_time = ''2025-08-29T01:10:00Z'', end_time = ''2025-08-29T02:10:00Z''\<rparr> k =
   Inr (Some (createProcessedEvent yogaEvent
          \<lparr>start_time = ''2025-08-29T01:10:00Z'', end_time = ''2025-08-29T02:10:00Z''\<rparr>
          (Some 1756429800000) (Some 1756433400000) SOON None
          \<lparr>loc_lat = None, loc_lon = None, loc_label = ''Far side of the playa'',
            loc_source = SourceOther\<rparr> fut), Suc k)"
  using assms
  by (simp add: processOccurrence_def Let_def demo_loaders demoParse_values demo_locals
        yoga_status resolve_yoga bind_err_def isFiniteNumber_def yoga_fields)

lemma yoga_second:
  "processOccurrence (demoEnv evs clock)
     (mkLocals (demoEnv evs clock) (demoParams None None) [yogaEvent] demoArtMap demoCampMap None)
     yogaEvent \<lparr>start_time = ''2025-08-30T01:10:00Z'', end_time = ''2025-08-30T02:10:00Z''\<rparr> k =
   Inr (None, k)"
  by (simp add: processOccurrence_def Let_def demo_loaders demoParse_values demo_locals
        yoga_status)

lemma yoga_run:
  assumes "\<And>k. getFutureOccurrences (demoEnv [yogaEvent] clock) [yogaEvent] k ''yoga''
             (Some 1756429800000) = (fut, Suc k)"
  shows "processEvents (demoEnv [yogaEvent] clock) (demoParams None None) =
   Inr [createProcessedEvent yogaEvent
          \<lparr>start_time = ''2025-08-29T01:10:00Z'', end_time = ''2025-08-29T02:10:00Z''\<rparr>
          (Some 1756429800000) (Some 1756433400000) SOON None
          \<lparr>loc_lat = None, loc_lon = None, loc_label = ''Far side of the playa'',
            loc_source = SourceOther\<rparr> fut]"
proof -
  have y: "sp_year (demoParams None None) = None"
    "sp_now (demoParams None None) = Some (Some demoNow)"
    "showOnlyFavorites (demoParams None None) = None"
    by (simp_all add: demoParams_def)
  show ?thesis
    by (simp add: processEvents_def Let_def y orDefault_def defaultYear_def demo_loaders
          yoga_fields bind_err_def yoga_first [OF assms] yoga_second)
qed

text \<open>
  C7, as stated, fails: the same data, the same search parameters and the same \<open>now\<close>
  override give a record with future day \<open>F\<close> when the run takes place on Thursday evening
  and a record with no future day when it takes place after the Friday occurrence.
\<close>

theorem processEvents_wall_clock_counterexample:
  "sp_now (demoParams None None) = Some (Some demoNow)
   \<and> map futureOccurrences
       (projr (processEvents (demoEnv [yogaEvent] (\<lambda>k. demoNow)) (demoParams None None))) = [''F'']
   \<and> map futureOccurrences
       (projr (processEvents (demoEnv [yogaEvent] (\<lambda>k. 1756700000000)) (demoParams None None))) = [[]]
   \<and> processEvents (demoEnv [yogaEvent] (\<lambda>k. demoNow)) (demoParams None None) \<noteq>
     processEvents (demoEnv [yogaEvent] (\<lambda>k. 1756700000000)) (demoParams None None)"
proof -
  have n: "sp_now (demoParams None None) = Some (Some demoNow)" by (simp add: demoParams_def)
  note r1 = yoga_run [OF yoga_future_early] and r2 = yoga_run [OF yoga_future_late]
  show ?thesis unfolding r1 r2 using n by (simp add: createProcessedEvent_def)
qed

theorem processEvents_wall_clock_witness:
  "sp_now (demoParams None None) = Some (Some demoNow)
   \<and> map_sum id (map withoutFuture)
       (processEvents (demoEnv [yogaEvent] (\<lambda>k. demoNow)) (demoParams None None)) =
     map_sum id (map withoutFuture)
       (processEvents (demoEnv [yogaEvent] (\<lambda>k. 1756700000000)) (demoParams None None))"
proof -
  have n: "sp_now (demoParams None None) = Some (Some demoNow)" by (simp add: demoParams_def)
  have e: "(demoEnv [yogaEvent] (\<lambda>k. 0))\<lparr>wallClock := c\<rparr> = demoEnv [yogaEvent] c" for c
    by (simp add: demoEnv_def)
  from processEvents_wall_clock [where env = "demoEnv [yogaEvent] (\<lambda>k. 0)"
      and ?clock1.0 = "\<lambda>k. demoNow" and ?clock2.0 = "\<lambda>k. 1756700000000", OF n]
  show ?thesis using n unfolding e by blast
qed

section \<open>Sorting is insertion into a sorted list\<close>

lemma set_insert_by [simp]: "set (insert_by cmp x xs) = insert x (set xs)"
  by (induction xs) auto

lemma mset_insert_by [simp]: "mset (insert_by cmp x xs) = add_mset x (mset xs)"
  by (induction xs) auto

lemma js_sort_Cons: "js_sort cmp (x # xs) = insert_by cmp x (js_sort cmp xs)"
  by (simp add: js_sort_def)

lemma mset_js_sort [simp]: "mset (js_sort cmp xs) = mset xs"
  by (induction xs) (simp_all add: js_sort_Cons, simp add: js_sort_def)

lemma set_js_sort [simp]: "set (js_sort cmp xs) = set xs"
  using mset_js_sort [of cmp xs] by (metis set_mset_mset)

text \<open>
  Under a comparator that is total and transitive on the elements of a list, insertion keeps
  a list sorted; if the comparator is antisymmetric as well, a multiset has one sorted list.
\<close>

lemma sorted_insert_by:
  assumes total: "\<And>a b. a \<in> S \<Longrightarrow> b \<in> S \<Longrightarrow> cmp a b \<le> 0 \<or> cmp b a \<le> 0"
    and trans: "\<And>a b c. a \<in> S \<Longrightarrow> b \<in> S \<Longrightarrow> c \<in> S \<Longrightarrow>
                  cmp a b \<le> 0 \<Longrightarrow> cmp b c \<le> 0 \<Longrightarrow> cmp a c \<le> 0"
  shows "x \<in> S \<Longrightarrow> set xs \<subseteq> S \<Longrightarrow> sorted_wrt (\<lambda>a b. cmp a b \<le> 0) xs \<Longrightarrow>
         sorted_wrt (\<lambda>a b. cmp a b \<le> 0) (insert_by cmp x xs)"
proof (induction xs)
  case Nil
  then show ?case by simp
next
  case (Cons y ys)
  show ?case
  proof (cases "cmp x y \<le> 0")
    case True
    have "\<forall>z\<in>set ys. cmp x z \<le> 0"
    proof
      fix z assume z: "z \<in> set ys"
      then have "cmp y z \<le> 0" using Cons.prems(3) by simp
      then show "cmp x z \<le> 0"
        using trans [of x y z] True Cons.prems(1,2) z by auto
    qed
    then show ?thesis using True Cons.prems(3) by simp
  next
    case False
    then have yx: "cmp y x \<le> 0" using total [of x y] Cons.prems(1,2) by auto
    have "sorted_wrt (\<lambda>a b. cmp a b \<le> 0) (insert_by cmp x ys)"
      using Cons by simp
    then show ?thesis using False yx Cons.prems(3) by simp
  qed
qed

lemma sorted_js_sort:
  assumes total: "\<And>a b. a \<in> S \<Longrightarrow> b \<in> S \<Longrightarrow> cmp a b \<le> 0 \<or> cmp b a \<le> 0"
    and trans: "\<And>a b c. a \<in> S \<Longrightarrow> b \<in> S \<Longrightarrow> c \<in> S \<Longrightarrow>
                  cmp a b \<le> 0 \<Longrightarrow> cmp b c \<le> 0 \<Longrightarrow> cmp a c \<le> 0"
  shows "set xs \<subseteq> S \<Longrightarrow> sorted_wrt (\<lambda>a b. cmp a b \<le> 0) (js_sort cmp xs)"
proof (induction xs)
  case Nil
  then show ?case by (simp add: js_sort_def)
next
  case (Cons x xs)
  then have "sorted_wrt (\<lambda>a b. cmp a b \<le> 0) (js_sort cmp xs)" by simp
  then show ?case
    unfolding js_sort_Cons
    using sorted_insert_by [of S cmp x "js_sort cmp xs", OF total trans] Cons.prems by simp
qed

lemma sorted_unique:
  assumes anti: "\<And>a b. a \<in> S \<Longrightarrow> b \<in> S \<Longrightarrow> cmp a b \<le> 0 \<Longrightarrow> cmp b a \<le> 0 \<Longrightarrow> a = b"
  shows "set xs \<subseteq> S \<Longrightarrow> mset xs = mset ys \<Longrightarrow>
         sorted_wrt (\<lambda>a b. cmp a b \<le> (0::real)) xs \<Longrightarrow>
         sorted_wrt (\<lambda>a b. cmp a b \<le> 0) ys \<Longrightarrow> xs = ys"
proof (induction xs arbitrary: ys)
  case Nil
  then show ?case by simp
next
  case (Cons x xs)
  from Cons.prems(2) obtain y ys' where ys: "ys = y # ys'" by (cases ys) auto
  have sets: "set (x # xs) = set (y # ys')"
    using Cons.prems(2) ys by (metis set_mset_mset)
  have xy: "x = y"
  proof (rule ccontr)
    assume ne: "x \<noteq> y"
    then have "y \<in> set xs" "x \<in> set ys'" using sets by auto
    then have "cmp x y \<le> 0" "cmp y x \<le> 0" using Cons.prems(3,4) ys by auto
    moreover have "x \<in> S" "y \<in> S" using Cons.prems(1) sets by auto
    ultimately show False using anti ne by blast
  qed
  have "mset xs = mset ys'" using Cons.prems(2) ys xy by simp
  moreover have "set xs \<subseteq> S" using Cons.prems(1) by simp
  ultimately have "xs = ys'" using Cons.IH [of ys'] Cons.prems(3,4) ys by simp
  then show ?case using xy ys by simp
qed

lemma js_sort_permutation:
  assumes total: "\<And>a b. a \<in> set xs \<Longrightarrow> b \<in> set xs \<Longrightarrow> cmp a b \<le> 0 \<or> cmp b a \<le> 0"
    and trans: "\<And>a b c. a \<in> set xs \<Longrightarrow> b \<in> set xs \<Longrightarrow> c \<in> set xs \<Longrightarrow>
                  cmp a b \<le> 0 \<Longrightarrow> cmp b c \<le> 0 \<Longrightarrow> cmp a c \<le> 0"
    and anti: "\<And>a b. a \<in> set xs \<Longrightarrow> b \<in> set xs \<Longrightarrow> cmp a b \<le> 0 \<Longrightarrow> cmp b a \<le> 0 \<Longrightarrow>
                  a = b"
    and perm: "mset xs = mset ys"
  shows "js_sort cmp xs = js_sort cmp ys"
proof -
  have s: "set ys = set xs" using perm by (metis set_mset_mset)
  have 1: "sorted_wrt (\<lambda>a b. cmp a b \<le> 0) (js_sort cmp xs)"
    by (rule sorted_js_sort [of "set xs" cmp, OF total trans]) auto
  have 2: "sorted_wrt (\<lambda>a b. cmp a b \<le> 0) (js_sort cmp ys)"
    by (rule sorted_js_sort [of "set xs" cmp, OF total trans]) (auto simp add: s)
  show ?thesis
    by (rule sorted_unique [of "set xs" cmp, OF anti _ _ 1 2]) (simp_all add: perm)
qed

lemma timeDiff_Some [simp]: "timeDiff (Some x) (Some y) = real_of_int (x - y)"
  by (simp add: timeDiff_def num_sub_def)

lemma timeDiff_None [simp]: "timeDiff None y = 0" "timeDiff x None = 0"
  by (simp_all add: timeDiff_def num_sub_def split: option.splits)

lemma timeDiff_same [simp]: "timeDiff x x = 0"
  by (cases x) simp_all

lemma timeDiff_asym: "timeDiff x y < 0 \<Longrightarrow> timeDiff y x < 0 \<Longrightarrow> False"
  by (cases x; cases y) simp_all

lemma timeDiff_total: "0 < timeDiff x y \<Longrightarrow> timeDiff y x \<le> 0"
  by (cases x; cases y) simp_all

lemma timeDiff_trans: "timeDiff x y < 0 \<Longrightarrow> timeDiff y z < 0 \<Longrightarrow> timeDiff x z \<le> 0"
  by (cases x; cases y; cases z) simp_all

text \<open>The comparators that look at times, statuses and distances only.\<close>

lemma statusPriority_inj: "statusPriority s = statusPriority t \<longleftrightarrow> s = t"
  by (cases s; cases t) (simp_all add: statusPriority_def)

lemma plain_asym:
  assumes "sortType \<noteq> SortByType" "sortType \<noteq> SortTitle"
    and "compareEvents env sortType a b < 0" "compareEvents env sortType b a < 0"
  shows False
proof (cases sortType)
  case SortDefault
  then show ?thesis
    using assms(3,4) timeDiff_asym [of "pe_end a" "pe_end b"]
      timeDiff_asym [of "pe_start a" "pe_start b"]
    by (auto simp add: compareEvents_def Let_def statusPriority_inj split: if_splits)
next
  case SortDistance
  then show ?thesis
    using assms(3,4) by (auto simp add: compareEvents_def split: option.splits)
next
  case SortTime
  then show ?thesis
    using assms(3,4) timeDiff_asym [of "pe_start a" "pe_start b"]
    by (simp add: compareEvents_def)
next
  case SortEnding
  then show ?thesis
    using assms(3,4) timeDiff_asym [of "pe_end a" "pe_end b"]
      timeDiff_asym [of "pe_start a" "pe_start b"]
    by (auto simp add: compareEvents_def split: if_splits)
qed (use assms in simp_all)

lemma plain_total:
  assumes "sortType \<noteq> SortByType" "sortType \<noteq> SortTitle"
    and "0 < compareEvents env sortType a b"
  shows "compareEvents env sortType b a \<le> 0"
proof (cases sortType)
  case SortDefault
  then show ?thesis
    using assms(3) timeDiff_total [of "pe_end a" "pe_end b"]
      timeDiff_total [of "pe_start a" "pe_start b"]
    by (auto simp add: compareEvents_def Let_def statusPriority_inj split: if_splits)
next
  case SortDistance
  then show ?thesis
    using assms(3) by (auto simp add: compareEvents_def split: option.splits)
next
  case SortTime
  then show ?thesis
    using assms(3) timeDiff_total [of "pe_start a" "pe_start b"]
    by (simp add: compareEvents_def)
next
  case SortEnding
  then show ?thesis
    using assms(3) timeDiff_total [of "pe_end a" "pe_end b"]
      timeDiff_total [of "pe_start a" "pe_start b"]
    by (auto simp add: compareEvents_def split: if_splits)
qed (use assms in simp_all)

lemma plain_trans:
  assumes "sortType \<noteq> SortByType" "sortType \<noteq> SortTitle"
    and "compareEvents env sortType a b < 0" "compareEvents env sortType b c < 0"
  shows "compareEvents env sortType a c \<le> 0"
proof (cases sortType)
  case SortDefault
  then show ?thesis
    using assms(3,4) timeDiff_trans [of "pe_end a" "pe_end b" "pe_end c"]
      timeDiff_trans [of "pe_start a" "pe_start b" "pe_start c"]
    by (auto simp add: compareEvents_def Let_def statusPriority_inj split: if_splits)
next
  case SortDistance
  then show ?thesis
    using assms(3,4) by (auto simp add: compareEvents_def split: option.splits)
next
  case SortTime
  then show ?thesis
    using assms(3,4) timeDiff_trans [of "pe_start a" "pe_start b" "pe_start c"]
    by (simp add: compareEvents_def)
next
  case SortEnding
  then show ?thesis
    using assms(3,4) timeDiff_trans [of "pe_end a" "pe_end b" "pe_end c"]
      timeDiff_trans [of "pe_start a" "pe_start b" "pe_start c"]
    by (auto simp add: compareEvents_def split: if_splits)
qed (use assms in simp_all)

text \<open>The comparators that compare a string first and the start time second.\<close>

lemma keyed_asym:
  assumes cmp: "\<And>a b. cmp a b =
        (if k a \<noteq> k b then real_of_int (lc (k a) (k b)) else timeDiff (s a) (s b))"
    and coll: "collation_on lc (k ` S)"
    and "a \<in> S" "b \<in> S" "cmp a b < 0" "cmp b a < 0"
  shows False
proof (cases "k a = k b")
  case True
  then show ?thesis using assms(5,6) timeDiff_asym [of "s a" "s b"] by (simp add: cmp)
next
  case False
  then have "lc (k a) (k b) \<le> 0" "lc (k b) (k a) \<le> 0"
    using assms(5,6) by (simp_all add: cmp split: if_splits)
  moreover have "k a \<in> k ` S" "k b \<in> k ` S" using assms(3,4) by simp_all
  ultimately have "k a = k b" using coll unfolding collation_on_def by blast
  then show ?thesis using False by simp
qed

lemma keyed_total:
  assumes cmp: "\<And>a b. cmp a b =
        (if k a \<noteq> k b then real_of_int (lc (k a) (k b)) else timeDiff (s a) (s b))"
    and coll: "collation_on lc (k ` S)"
    and "a \<in> S" "b \<in> S" "0 < cmp a b"
  shows "cmp b a \<le> 0"
proof (cases "k a = k b")
  case True
  then show ?thesis using assms(5) timeDiff_total [of "s a" "s b"] by (simp add: cmp)
next
  case False
  then have "\<not> lc (k a) (k b) \<le> 0" using assms(5) by (simp add: cmp)
  moreover have "k a \<in> k ` S" "k b \<in> k ` S" using assms(3,4) by simp_all
  ultimately have "lc (k b) (k a) \<le> 0" using coll unfolding collation_on_def by blast
  then show ?thesis using False by (simp add: cmp)
qed

lemma keyed_trans:
  assumes cmp: "\<And>a b. cmp a b =
        (if k a \<noteq> k b then real_of_int (lc (k a) (k b)) else timeDiff (s a) (s b))"
    and coll: "collation_on lc (k ` S)"
    and "a \<in> S" "b \<in> S" "c \<in> S" "cmp a b < 0" "cmp b c < 0"
  shows "cmp a c \<le> 0"
proof -
  have mem: "k a \<in> k ` S" "k b \<in> k ` S" "k c \<in> k ` S" using assms(3,4,5) by simp_all
  have anti: "\<And>x y. x \<in> k ` S \<Longrightarrow> y \<in> k ` S \<Longrightarrow> lc x y \<le> 0 \<Longrightarrow> lc y x \<le> 0 \<Longrightarrow> x = y"
    using coll unfolding collation_on_def by blast
  have trans: "\<And>x y z. x \<in> k ` S \<Longrightarrow> y \<in> k ` S \<Longrightarrow> z \<in> k ` S \<Longrightarrow>
      lc x y \<le> 0 \<Longrightarrow> lc y z \<le> 0 \<Longrightarrow> lc x z \<le> 0"
    using coll unfolding collation_on_def by blast
  have ab: "k a \<noteq> k b \<Longrightarrow> lc (k a) (k b) \<le> 0" using assms(6) by (simp add: cmp)
  have bc: "k b \<noteq> k c \<Longrightarrow> lc (k b) (k c) \<le> 0" using assms(7) by (simp add: cmp)
  show ?thesis
  proof (cases "k a = k b")
    case True
    note kab = this
    show ?thesis
    proof (cases "k b = k c")
      case True
      then show ?thesis
        using kab assms(6,7) timeDiff_trans [of "s a" "s b" "s c"] by (simp add: cmp)
    next
      case False
      then show ?thesis using kab bc by (simp add: cmp)
    qed
  next
    case False
    note kab = this
    show ?thesis
    proof (cases "k b = k c")
      case True
      then show ?thesis using kab ab by (simp add: cmp)
    next
      case False
      have "lc (k a) (k c) \<le> 0"
        using trans [OF mem(1) mem(2) mem(3) ab [OF kab] bc [OF False]] .
      moreover have "k a \<noteq> k c"
      proof
        assume e: "k a = k c"
        have "lc (k b) (k a) \<le> 0" using bc [OF False] e by simp
        then have "k a = k b" using anti [OF mem(1) mem(2) ab [OF kab]] by simp
        then show False using kab by simp
      qed
      ultimately show ?thesis by (simp add: cmp)
    qed
  qed
qed

lemma compareEvents_SortByType:
  "compareEvents env SortByType a b =
     (if typeAbbr a \<noteq> typeAbbr b
      then real_of_int (localeCompare env (typeAbbr a) (typeAbbr b))
      else timeDiff (pe_start a) (pe_start b))"
  by (simp add: compareEvents_def)

lemma compareEvents_SortTitle:
  "compareEvents env SortTitle a b =
     (if pe_title a \<noteq> pe_title b
      then real_of_int (localeCompare env (pe_title a) (pe_title b))
      else timeDiff (pe_start a) (pe_start b))"
  by (simp add: compareEvents_def)

lemma compareEvents_order:
  assumes "sortType = SortByType \<longrightarrow> collation_on (localeCompare env) (typeAbbr ` S)"
    and "sortType = SortTitle \<longrightarrow> collation_on (localeCompare env) (pe_title ` S)"
    and "a \<in> S" "b \<in> S"
  shows "compareEvents env sortType a b < 0 \<Longrightarrow> compareEvents env sortType b a < 0 \<Longrightarrow> False"
    and "0 < compareEvents env sortType a b \<Longrightarrow> compareEvents env sortType b a \<le> 0"
    and "c \<in> S \<Longrightarrow> compareEvents env sortType a b < 0 \<Longrightarrow> compareEvents env sortType b c < 0 \<Longrightarrow>
         compareEvents env sortType a c \<le> 0"
proof -
  consider "sortType = SortByType" | "sortType = SortTitle"
    | "sortType \<noteq> SortByType \<and> sortType \<noteq> SortTitle" by blast
  then have "(compareEvents env sortType a b < 0 \<longrightarrow> compareEvents env sortType b a < 0 \<longrightarrow> False)
     \<and> (0 < compareEvents env sortType a b \<longrightarrow> compareEvents env sortType b a \<le> 0)
     \<and> (c \<in> S \<longrightarrow> compareEvents env sortType a b < 0 \<longrightarrow> compareEvents env sortType b c < 0 \<longrightarrow>
         compareEvents env sortType a c \<le> 0)"
  proof cases
    case 1
    then have coll: "collation_on (localeCompare env) (typeAbbr ` S)" using assms(1) by simp
    show ?thesis
      unfolding 1
      using keyed_asym [OF compareEvents_SortByType coll assms(3,4)]
        keyed_total [OF compareEvents_SortByType coll assms(3,4)]
        keyed_trans [OF compareEvents_SortByType coll assms(3,4)]
      by blast
  next
    case 2
    then have coll: "collation_on (localeCompare env) (pe_title ` S)" using assms(2) by simp
    show ?thesis
      unfolding 2
      using keyed_asym [OF compareEvents_SortTitle coll assms(3,4)]
        keyed_total [OF compareEvents_SortTitle coll assms(3,4)]
        keyed_trans [OF compareEvents_SortTitle coll assms(3,4)]
      by blast
  next
    case 3
    then show ?thesis
      using plain_asym [of sortType env a b] plain_total [of sortType env a b]
        plain_trans [of sortType env a b c]
      by blast
  qed
  then show "compareEvents env sortType a b < 0 \<Longrightarrow> compareEvents env sortType b a < 0 \<Longrightarrow> False"
    and "0 < compareEvents env sortType a b \<Longrightarrow> compareEvents env sortType b a \<le> 0"
    and "c \<in> S \<Longrightarrow> compareEvents env sortType a b < 0 \<Longrightarrow> compareEvents env sortType b c < 0 \<Longrightarrow>
         compareEvents env sortType a c \<le> 0"
    by blast+
qed

text \<open>
  C6, amended. If no two distinct events of a list compare as equal under the comparator of
  the sort strategy (and, for the strategies by type and by title, \<^verbatim>\<open>localeCompare\<close> orders the
  type abbreviations or the titles of the list), then \<open>sortEvents\<close> returns the same sequence
  for the list and for every permutation of it, whatever the current time passed.
\<close>

theorem sortEvents_permutation_without_ties:
  assumes perm: "mset xs = mset ys"
    and noties: "\<forall>a\<in>set xs. \<forall>b\<in>set xs. a \<noteq> b \<longrightarrow> compareEvents env sortType a b \<noteq> 0"
    and abbrs: "sortType = SortByType \<longrightarrow> collation_on (localeCompare env) (typeAbbr ` set xs)"
    and titles: "sortType = SortTitle \<longrightarrow> collation_on (localeCompare env) (pe_title ` set xs)"
  shows "sortEvents env xs sortType t1 = sortEvents env ys sortType t2"
proof -
  let ?cmp = "compareEvents env sortType"
  have strict: "?cmp a b < 0" if "a \<in> set xs" "b \<in> set xs" "a \<noteq> b" "?cmp a b \<le> 0" for a b
    using that noties by fastforce
  have total: "?cmp a b \<le> 0 \<or> ?cmp b a \<le> 0" if "a \<in> set xs" "b \<in> set xs" for a b
    using compareEvents_order(2) [OF abbrs titles that] by linarith
  have trans: "?cmp a c \<le> 0"
    if "a \<in> set xs" "b \<in> set xs" "c \<in> set xs" "?cmp a b \<le> 0" "?cmp b c \<le> 0" for a b c
  proof (cases "a = b \<or> b = c")
    case True
    then show ?thesis using that(4,5) by auto
  next
    case False
    then have "?cmp a b < 0" "?cmp b c < 0" using strict that by auto
    then show ?thesis using compareEvents_order(3) [OF abbrs titles that(1,2,3)] by simp
  qed
  have anti: "a = b" if "a \<in> set xs" "b \<in> set xs" "?cmp a b \<le> 0" "?cmp b a \<le> 0" for a b
  proof (rule ccontr)
    assume "a \<noteq> b"
    then have "?cmp a b < 0" "?cmp b a < 0" using strict that by auto
    then show False using compareEvents_order(1) [OF abbrs titles that(1,2)] by simp
  qed
  show ?thesis
    unfolding sortEvents_def
    by (rule js_sort_permutation [OF total trans anti perm])
qed

text \<open>Two elements are swapped only if the comparator puts the first after the second.\<close>

lemma sort_two:
  "js_sort cmp [a, b] = (if cmp a b \<le> 0 then [a, b] else [b, a])"
  by (simp add: js_sort_def)

lemma demo_titles:
  "collation_on demoCollation (pe_title ` set [acroJam, bikeRepair])"
  by (simp add: collation_on_def acroJam_def bikeRepair_def demoCard_def)

theorem sortEvents_permutation_without_ties_witness:
  "mset [acroJam, bikeRepair] = mset [bikeRepair, acroJam]
   \<and> compareEvents (demoEnv [] (\<lambda>k. demoNow)) SortTitle acroJam bikeRepair = - 1
   \<and> compareEvents (demoEnv [] (\<lambda>k. demoNow)) SortTitle bikeRepair acroJam = 1
   \<and> sortEvents (demoEnv [] (\<lambda>k. demoNow)) [acroJam, bikeRepair] SortTitle (Some demoNow)
       = sortEvents (demoEnv [] (\<lambda>k. demoNow)) [bikeRepair, acroJam] SortTitle None
   \<and> sortEvents (demoEnv [] (\<lambda>k. demoNow)) [bikeRepair, acroJam] SortTitle None
       = [acroJam, bikeRepair]"
proof -
  have lc: "localeCompare (demoEnv [] (\<lambda>k. demoNow)) = demoCollation"
    by (simp add: demoEnv_def)
  have c: "compareEvents (demoEnv [] (\<lambda>k. demoNow)) SortTitle acroJam bikeRepair = - 1"
    "compareEvents (demoEnv [] (\<lambda>k. demoNow)) SortTitle bikeRepair acroJam = 1"
    by (simp_all add: compareEvents_def lc acroJam_def bikeRepair_def demoCard_def)
  have p: "mset [acroJam, bikeRepair] = mset [bikeRepair, acroJam]" by simp
  have n: "\<forall>a\<in>set [acroJam, bikeRepair]. \<forall>b\<in>set [acroJam, bikeRepair].
         a \<noteq> b \<longrightarrow> compareEvents (demoEnv [] (\<lambda>k. demoNow)) SortTitle a b \<noteq> 0"
    by (simp add: c)
  have t: "collation_on (localeCompare (demoEnv [] (\<lambda>k. demoNow)))
        (pe_title ` set [acroJam, bikeRepair])"
    unfolding lc by (rule demo_titles)
  have s: "sortEvents (demoEnv [] (\<lambda>k. demoNow)) [bikeRepair, acroJam] SortTitle None
       = [acroJam, bikeRepair]"
    by (simp add: sortEvents_def sort_two c)
  show ?thesis
    using sortEvents_permutation_without_ties
      [where xs = "[acroJam, bikeRepair]" and ys = "[bikeRepair, acroJam]"
         and env = "demoEnv [] (\<lambda>k. demoNow)" and sortType = SortTitle
         and ?t1.0 = "Some demoNow" and ?t2.0 = None, OF p n _ ]
      p t s c
    by simp
qed

text \<open>
  Two events that no comparator tells apart: every strategy returns them in the order of
  the input.
\<close>

lemma happyHour_tie:
  "compareEvents env sortType happyHourA happyHourB = 0"
  "compareEvents env sortType happyHourB happyHourA = 0"
  by (cases sortType; simp add: compareEvents_def happyHourA_def happyHourB_def demoCard_def)+

lemma sortEvents_ties_keep_input_order:
  "sortEvents env [happyHourA, happyHourB] sortType t = [happyHourA, happyHourB]"
  "sortEvents env [happyHourB, happyHourA] sortType t = [happyHourB, happyHourA]"
  by (simp_all add: sortEvents_def sort_two happyHour_tie)

text \<open>
  C6, as stated, fails: two events of different hosts with the same title, type, start,
  end, status and distance are returned in the order of the input, so that the list and
  its permutation give different sequences (here by start time; the lemma above gives the
  same for every strategy).
\<close>

theorem sortEvents_permutation_counterexample:
  "mset [happyHourA, happyHourB] = mset [happyHourB, happyHourA]
   \<and> sortEvents (demoEnv [] (\<lambda>k. demoNow)) [happyHourA, happyHourB] SortTime (Some demoNow)
       = [happyHourA, happyHourB]
   \<and> sortEvents (demoEnv [] (\<lambda>k. demoNow)) [happyHourB, happyHourA] SortTime (Some demoNow)
       = [happyHourB, happyHourA]
   \<and> sortEvents (demoEnv [] (\<lambda>k. demoNow)) [happyHourA, happyHourB] SortTime (Some demoNow)
       \<noteq> sortEvents (demoEnv [] (\<lambda>k. demoNow)) [happyHourB, happyHourA] SortTime (Some demoNow)"
proof -
  have "happyHourA \<noteq> happyHourB" by (simp add: happyHourA_def happyHourB_def demoCard_def)
  then show ?thesis
    by (simp add: sortEvents_def sort_two happyHour_tie)
qed

end
